theory Spec2Isabelle
  imports Complex_Main
begin

section \<open>Bayesian optimisation over a discrete pool of molecules\<close>

text \<open>
  A shallow embedding of the notebook \<^verbatim>\<open>Bayesian Optimisation Over Molecules.ipynb\<close>.
  A two-dimensional tensor of feature rows is a list of rows of an arbitrary type \<open>'x\<close>;
  a label tensor is a list of reals (labels are taken NaN-free and compared as real
  numbers). Every exception the Python can raise is a value \<open>Inl e\<close> of a sum type.
  Library calls whose code is outside the notebook (sklearn, torch, numpy, botorch) are
  modelled from their documented behaviour, or taken as parameters where they are
  black boxes (random generators, the hyperparameter optimiser, the acquisition value).
  The statements are modelled twice: as functions on values, and as functions on a
  store of objects, where a change of an object in place differs from a new object.
\<close>

subsection \<open>Errors and tensor primitives\<close>

text \<open>
  \<open>EmptyPoolError\<close> is the error named by the specification; no statement of the
  notebook raises it. The other three are the exceptions that the notebook's statements
  can raise: \<open>IndexError\<close> (an index out of range, in Python and in torch),
  \<open>ValueError\<close> (numpy and sklearn) and \<open>EmptyReductionError\<close>, the exception that a
  reduction of torch (\<^verbatim>\<open>argmax\<close>, \<^verbatim>\<open>max\<close>) raises on a tensor without elements: a
  RuntimeError or an IndexError, depending on the version of torch.
\<close>

datatype error = EmptyPoolError | IndexError | EmptyReductionError | ValueError

text \<open>\<^verbatim>\<open>t[i]\<close> for a non-negative index: IndexError out of range.\<close>

definition getitem :: "'a list \<Rightarrow> nat \<Rightarrow> error + 'a" where
  "getitem t i = (if i < length t then Inr (t ! i) else Inl IndexError)"

text \<open>\<^verbatim>\<open>xs[-1]\<close> on a Python list: IndexError when the list is empty.\<close>

definition getitem_last :: "'a list \<Rightarrow> error + 'a" where
  "getitem_last xs = (if xs = [] then Inl IndexError else Inr (last xs))"

text \<open>\<^verbatim>\<open>unsqueeze\<close> adds a dimension of size one: a row becomes a batch of one row.\<close>

definition unsqueeze :: "'a \<Rightarrow> 'a list" where
  "unsqueeze v = [v]"

text \<open>
  \<^verbatim>\<open>torch.argmax\<close> on a one-dimensional tensor: an error on an empty tensor,
  otherwise the index of the first maximal value (as the torch documentation states).
\<close>

definition torch_argmax :: "real list \<Rightarrow> error + nat" where
  "torch_argmax vs =
     (if vs = [] then Inl EmptyReductionError
      else Inr (length (takeWhile (\<lambda>v. v \<noteq> Max (set vs)) vs)))"

text \<open>\<^verbatim>\<open>t.max()\<close> of torch (an error when empty) and \<^verbatim>\<open>np.max\<close> (ValueError when empty).\<close>

definition torch_max :: "real list \<Rightarrow> error + real" where
  "torch_max t = (if t = [] then Inl EmptyReductionError else Inr (Max (set t)))"

definition np_max :: "real list \<Rightarrow> error + real" where
  "np_max a = (if a = [] then Inl ValueError else Inr (Max (set a)))"

subsection \<open>The discrete optimiser\<close>

text \<open>
  The loop \<^verbatim>\<open>for i in range(len(heldout_outputs)): acq_vals.append(acq_func(...))\<close>,
  as a recursion over the list of the indices still to visit.
\<close>

fun acq_vals_loop ::
  "('x list \<Rightarrow> real) \<Rightarrow> 'x list \<Rightarrow> nat list \<Rightarrow> real list \<Rightarrow> error + real list" where
  "acq_vals_loop acq_func heldout_inputs [] acq_vals = Inr acq_vals"
| "acq_vals_loop acq_func heldout_inputs (i # rest) acq_vals =
     (case getitem heldout_inputs i of
        Inl e \<Rightarrow> Inl e
      | Inr row \<Rightarrow>
          acq_vals_loop acq_func heldout_inputs rest (acq_vals @ [acq_func (unsqueeze row)]))"

definition optimize_acqf_and_get_observation ::
  "('x list \<Rightarrow> real) \<Rightarrow> 'x list \<Rightarrow> real list
     \<Rightarrow> error + ('x list \<times> real list \<times> 'x list \<times> real list)" where
  "optimize_acqf_and_get_observation acq_func heldout_inputs heldout_outputs =
     (case acq_vals_loop acq_func heldout_inputs [0..<length heldout_outputs] [] of
        Inl e \<Rightarrow> Inl e
      | Inr acq_vals \<Rightarrow>
     (case torch_argmax acq_vals of
        Inl e \<Rightarrow> Inl e
      | Inr best_idx \<Rightarrow>
     (case getitem heldout_inputs best_idx of
        Inl e \<Rightarrow> Inl e
      | Inr row \<Rightarrow>
     (case getitem heldout_outputs best_idx of
        Inl e \<Rightarrow> Inl e
      | Inr obj \<Rightarrow>
          Inr (unsqueeze row, unsqueeze obj,
               take best_idx heldout_inputs @ drop (best_idx + 1) heldout_inputs,
               take best_idx heldout_outputs @ drop (best_idx + 1) heldout_outputs)))))"

subsection \<open>The random policy\<close>

text \<open>
  \<^verbatim>\<open>torch.randperm\<close> is a parameter: from the generator state and \<open>n\<close> it gives the
  permutation drawn and the next generator state.
\<close>

definition update_random_observations ::
  "('g \<Rightarrow> nat \<Rightarrow> nat list \<times> 'g) \<Rightarrow> 'g \<Rightarrow> real list \<Rightarrow> 'x list \<Rightarrow> real list
     \<Rightarrow> error + (real list \<times> 'x list \<times> real list \<times> 'g)" where
  "update_random_observations randperm g best_random heldout_inputs heldout_outputs =
     (case randperm g (length heldout_outputs) of (perm, g') \<Rightarrow>
     (case getitem perm 0 of
        Inl e \<Rightarrow> Inl e
      | Inr index \<Rightarrow>
     (case getitem heldout_outputs index of
        Inl e \<Rightarrow> Inl e
      | Inr next_random_best \<Rightarrow>
     (case getitem_last best_random of
        Inl e \<Rightarrow> Inl e
      | Inr prev \<Rightarrow>
          Inr (best_random @ [max prev next_random_best],
               take index heldout_inputs @ drop (index + 1) heldout_inputs,
               take index heldout_outputs @ drop (index + 1) heldout_outputs,
               g')))))"

text \<open>The contract of \<^verbatim>\<open>torch.randperm(n)\<close>: a permutation of \<open>0, ..., n - 1\<close>.\<close>

definition valid_randperm :: "('g \<Rightarrow> nat \<Rightarrow> nat list \<times> 'g) \<Rightarrow> bool" where
  "valid_randperm randperm =
     (\<forall>g n. distinct (fst (randperm g n)) \<and> set (fst (randperm g n)) = {..<n})"

subsection \<open>The initial split\<close>

text \<open>
  \<^verbatim>\<open>train_test_split(X, y, test_size=holdout_set_size, random_state=trial)\<close> of sklearn,
  with a float test size: the sizes are \<open>n_test = ceil(test_size * n_samples)\<close> and
  \<open>n_train = n_samples - n_test\<close>, a ValueError is raised when the arrays differ in
  length, when the test size is not strictly between 0 and 1 or when the train set
  would be empty; the first \<open>n_test\<close> entries of the shuffled indices are the test
  indices, the next \<open>n_train\<close> the train indices. The shuffle (the permutation that
  the generator seeded with \<open>random_state\<close> draws for \<open>n_samples\<close>) is a parameter;
  indexing the arrays with an index out of range is an IndexError.
\<close>

definition train_test_split ::
  "(nat \<Rightarrow> nat \<Rightarrow> nat list) \<Rightarrow> 'x list \<Rightarrow> real list \<Rightarrow> real \<Rightarrow> nat
     \<Rightarrow> error + ('x list \<times> 'x list \<times> real list \<times> real list)" where
  "train_test_split shuffle X y test_size random_state =
     (if length X \<noteq> length y then Inl ValueError
      else if test_size \<le> 0 \<or> 1 \<le> test_size then Inl ValueError
      else
        (let n_samples = length X;
             n_test = nat \<lceil>test_size * real n_samples\<rceil>;
             n_train = n_samples - n_test
         in if n_train = 0 then Inl ValueError
            else
              (let permutation = shuffle random_state n_samples;
                   ind_test = take n_test permutation;
                   ind_train = take n_train (drop n_test permutation)
               in if list_all (\<lambda>i. i < n_samples) (ind_train @ ind_test)
                  then Inr (map ((!) X) ind_train, map ((!) X) ind_test,
                            map ((!) y) ind_train, map ((!) y) ind_test)
                  else Inl IndexError)))"


subsection \<open>The surrogate model\<close>

text \<open>
  A \<^verbatim>\<open>TanimotoGP\<close> object: its training data and its state dict (the hyperparameters
  of mean, kernel scale and likelihood, an arbitrary type \<open>'h\<close>). The constructor
  creates fresh modules, which hold their default values. The Tanimoto kernel and the
  posterior of the model enter the loop only through the value of the acquisition
  function, which is a parameter of the trial.
\<close>

record ('x, 'h) gp_model =
  train_inputs :: "'x list"
  train_targets :: "real list"
  state_dict :: 'h

definition TanimotoGP :: "'h \<Rightarrow> 'x list \<Rightarrow> real list \<Rightarrow> ('x, 'h) gp_model" where
  "TanimotoGP defaults train_X train_Y =
     \<lparr>train_inputs = train_X, train_targets = train_Y, state_dict = defaults\<rparr>"

definition load_state_dict :: "('x, 'h) gp_model \<Rightarrow> 'h \<Rightarrow> ('x, 'h) gp_model" where
  "load_state_dict model sd = model\<lparr>state_dict := sd\<rparr>"

text \<open>
  \<^verbatim>\<open>initialize_model\<close> returns the pair \<^verbatim>\<open>(mll, model)\<close>, where \<^verbatim>\<open>mll\<close> wraps the very
  object \<^verbatim>\<open>model\<close>: fitting \<^verbatim>\<open>mll\<close> updates \<^verbatim>\<open>model\<close> in place. The embedding keeps the
  one object.
\<close>

definition initialize_model ::
  "'h \<Rightarrow> 'x list \<Rightarrow> real list \<Rightarrow> 'h option \<Rightarrow> ('x, 'h) gp_model" where
  "initialize_model defaults train_x train_obj sd =
     (let model = TanimotoGP defaults train_x train_obj
      in case sd of None \<Rightarrow> model | Some d \<Rightarrow> load_state_dict model d)"

text \<open>
  \<^verbatim>\<open>fit_gpytorch_model\<close> optimises the hyperparameters in place, starting from the
  values the model holds. The optimiser is a parameter: from the starting values and
  the training data it gives the fitted values.
\<close>

definition fit_gpytorch_model ::
  "('h \<Rightarrow> 'x list \<Rightarrow> real list \<Rightarrow> 'h) \<Rightarrow> ('x, 'h) gp_model \<Rightarrow> ('x, 'h) gp_model" where
  "fit_gpytorch_model optimiser model =
     model\<lparr>state_dict := optimiser (state_dict model) (train_inputs model) (train_targets model)\<rparr>"

subsection \<open>One trial\<close>

text \<open>The collaborators of the loop that the notebook imports.\<close>

record ('x, 'h, 'g) env =
  shuffle :: "nat \<Rightarrow> nat \<Rightarrow> nat list"
  randperm :: "'g \<Rightarrow> nat \<Rightarrow> nat list \<times> 'g"
  defaults :: 'h
  optimiser :: "'h \<Rightarrow> 'x list \<Rightarrow> real list \<Rightarrow> 'h"
  expected_improvement :: "('x, 'h) gp_model \<Rightarrow> real \<Rightarrow> 'x list \<Rightarrow> real"

text \<open>The variables of one trial; \<open>rng\<close> is the state of torch's global generator.\<close>

record ('x, 'h, 'g) trial_state =
  train_x_ei :: "'x list"
  train_y_ei :: "real list"
  heldout_x_ei :: "'x list"
  heldout_y_ei :: "real list"
  heldout_x_random :: "'x list"
  heldout_y_random :: "real list"
  best_observed_ei :: "real list"
  best_random :: "real list"
  model_ei :: "('x, 'h) gp_model"
  rng :: 'g

definition trial_init ::
  "('x, 'h, 'g) env \<Rightarrow> 'x list \<Rightarrow> real list \<Rightarrow> real \<Rightarrow> 'g \<Rightarrow> nat
     \<Rightarrow> error + ('x, 'h, 'g) trial_state" where
  "trial_init E X y holdout_set_size g trial =
     (case train_test_split (shuffle E) X y holdout_set_size trial of
        Inl e \<Rightarrow> Inl e
      | Inr (train_x, heldout_x, train_y, heldout_y) \<Rightarrow>
     (case np_max train_y of
        Inl e \<Rightarrow> Inl e
      | Inr best_observed_value_ei \<Rightarrow>
          Inr \<lparr>train_x_ei = train_x, train_y_ei = train_y,
               heldout_x_ei = heldout_x, heldout_y_ei = heldout_y,
               heldout_x_random = heldout_x, heldout_y_random = heldout_y,
               best_observed_ei = [] @ [best_observed_value_ei],
               best_random = [] @ [best_observed_value_ei],
               model_ei = initialize_model (defaults E) train_x train_y None,
               rng = g\<rparr>))"

text \<open>
  The body of the loop over \<^verbatim>\<open>iteration\<close>. The entries of the traces are tensors of one
  element; the traces are modelled as lists of their values, so that appending
  \<^verbatim>\<open>torch.max(new_obj_ei, best_observed_ei[-1])\<close> (the elementwise maximum of the
  one-element tensor \<^verbatim>\<open>new_obj_ei\<close> with the previous entry) appends its elements.
\<close>

definition bo_iteration ::
  "('x, 'h, 'g) env \<Rightarrow> ('x, 'h, 'g) trial_state \<Rightarrow> error + ('x, 'h, 'g) trial_state" where
  "bo_iteration E s =
     (let fitted = fit_gpytorch_model (optimiser E) (model_ei s) in
     (case torch_max (train_y_ei s) of
        Inl e \<Rightarrow> Inl e
      | Inr best_f \<Rightarrow>
     (case optimize_acqf_and_get_observation (expected_improvement E fitted best_f)
             (heldout_x_ei s) (heldout_y_ei s) of
        Inl e \<Rightarrow> Inl e
      | Inr (new_x_ei, new_obj_ei, heldout_x, heldout_y) \<Rightarrow>
     (case update_random_observations (randperm E) (rng s) (best_random s)
             (heldout_x_random s) (heldout_y_random s) of
        Inl e \<Rightarrow> Inl e
      | Inr (best_rnd, heldout_x_rnd, heldout_y_rnd, g') \<Rightarrow>
     (case getitem_last (best_observed_ei s) of
        Inl e \<Rightarrow> Inl e
      | Inr prev \<Rightarrow>
          (let train_x = train_x_ei s @ new_x_ei;
               train_y = train_y_ei s @ new_obj_ei;
               best_value_ei = map (\<lambda>v. max v prev) new_obj_ei
           in Inr \<lparr>train_x_ei = train_x, train_y_ei = train_y,
                    heldout_x_ei = heldout_x, heldout_y_ei = heldout_y,
                    heldout_x_random = heldout_x_rnd, heldout_y_random = heldout_y_rnd,
                    best_observed_ei = best_observed_ei s @ best_value_ei,
                    best_random = best_rnd,
                    model_ei = initialize_model (defaults E) train_x train_y
                                 (Some (state_dict fitted)),
                    rng = g'\<rparr>))))))"

text \<open>\<^verbatim>\<open>for iteration in range(1, N_ITERS + 1)\<close>: the body, \<open>n\<close> times, stopping at an error.\<close>

primrec bo_loop ::
  "('x, 'h, 'g) env \<Rightarrow> nat \<Rightarrow> ('x, 'h, 'g) trial_state \<Rightarrow> error + ('x, 'h, 'g) trial_state" where
  "bo_loop E 0 s = Inr s"
| "bo_loop E (Suc n) s =
     (case bo_iteration E s of Inl e \<Rightarrow> Inl e | Inr s' \<Rightarrow> bo_loop E n s')"

subsection \<open>The experiment\<close>

text \<open>The parameters of the experiment; the notebook sets 20, 0.95 and 20.\<close>

record config =
  N_TRIALS :: nat
  holdout_set_size :: real
  N_ITERS :: nat

definition notebook_config :: config where
  "notebook_config = \<lparr>N_TRIALS = 20, holdout_set_size = 0.95, N_ITERS = 20\<rparr>"

text \<open>
  The variables of the notebook that outlive a trial: the dataset \<^verbatim>\<open>X\<close>, \<^verbatim>\<open>y\<close> (the
  loader's features and labels), the collected traces and the generator state.
\<close>

record ('x, 'g) notebook_state =
  features :: "'x list"
  labels :: "real list"
  best_observed_all_ei :: "real list list"
  best_random_all :: "real list list"
  torch_rng :: 'g

definition run_trial ::
  "config \<Rightarrow> ('x, 'h, 'g) env \<Rightarrow> ('x, 'g) notebook_state \<Rightarrow> nat
     \<Rightarrow> error + ('x, 'g) notebook_state" where
  "run_trial C E st trial =
     (case trial_init E (features st) (labels st) (holdout_set_size C) (torch_rng st) trial of
        Inl e \<Rightarrow> Inl e
      | Inr s0 \<Rightarrow>
     (case bo_loop E (N_ITERS C) s0 of
        Inl e \<Rightarrow> Inl e
      | Inr s \<Rightarrow>
          Inr (st\<lparr>best_observed_all_ei := best_observed_all_ei st @ [best_observed_ei s],
                  best_random_all := best_random_all st @ [best_random s],
                  torch_rng := rng s\<rparr>)))"

fun trials_loop ::
  "config \<Rightarrow> ('x, 'h, 'g) env \<Rightarrow> nat list \<Rightarrow> ('x, 'g) notebook_state
     \<Rightarrow> error + ('x, 'g) notebook_state" where
  "trials_loop C E [] st = Inr st"
| "trials_loop C E (trial # rest) st =
     (case run_trial C E st trial of Inl e \<Rightarrow> Inl e | Inr st' \<Rightarrow> trials_loop C E rest st')"

text \<open>
  The whole experiment cell: it resets the two collections and runs the trials
  \<open>1, ..., N_TRIALS\<close>.
\<close>

definition run_experiment ::
  "config \<Rightarrow> ('x, 'h, 'g) env \<Rightarrow> ('x, 'g) notebook_state \<Rightarrow> error + ('x, 'g) notebook_state" where
  "run_experiment C E st =
     trials_loop C E [1..<N_TRIALS C + 1]
       (st\<lparr>best_observed_all_ei := [], best_random_all := []\<rparr>)"

subsection \<open>Aggregation\<close>






subsection \<open>Index bookkeeping\<close>




subsection \<open>The notebook on a store of objects\<close>

text \<open>
  The functions above pass values, so they cannot tell an operation that changes an
  object in place from one that builds a new object. The functions of this subsection
  run the same statements on a store: a list of objects, in which an address is a
  position, a Python variable holds an address, creating an object appends a cell, and
  an operation that works in place overwrites the cell of the object it is called on.
  The objects are arrays and tensors of rows (\<open>Rows\<close>) and of labels (\<open>Vals\<close>), Python
  lists of trace entries (\<open>PyList\<close>), Python lists of references to such lists
  (\<open>RefList\<close>), and GP models (\<open>Model\<close>), which refer to their training tensors by
  address and hold their hyperparameters.
\<close>

datatype ('x, 'h) obj =
    Rows "'x list"
  | Vals "real list"
  | PyList "real list"
  | RefList "nat list"
  | Model nat nat 'h

text \<open>
  A run on the store fails with an exception of the Python (\<open>Raises\<close>), or because a
  variable does not refer to an object of the kind the statement needs
  (\<open>BadReference\<close>: no cell at the address, or a cell of another kind).
\<close>

datatype fault = Raises error | BadReference

definition bnd :: "fault + 'a \<Rightarrow> ('a \<Rightarrow> fault + 'b) \<Rightarrow> fault + 'b" where
  "bnd m f = (case m of Inl e \<Rightarrow> Inl e | Inr v \<Rightarrow> f v)"

definition raises :: "error + 'a \<Rightarrow> fault + 'a" where
  "raises m = (case m of Inl e \<Rightarrow> Inl (Raises e) | Inr v \<Rightarrow> Inr v)"

text \<open>Reading the object at an address.\<close>

definition get_rows :: "('x, 'h) obj list \<Rightarrow> nat \<Rightarrow> fault + 'x list" where
  "get_rows H a =
     (if a < length H then (case H ! a of Rows xs \<Rightarrow> Inr xs | _ \<Rightarrow> Inl BadReference)
      else Inl BadReference)"

definition get_vals :: "('x, 'h) obj list \<Rightarrow> nat \<Rightarrow> fault + real list" where
  "get_vals H a =
     (if a < length H then (case H ! a of Vals ys \<Rightarrow> Inr ys | _ \<Rightarrow> Inl BadReference)
      else Inl BadReference)"

definition get_list :: "('x, 'h) obj list \<Rightarrow> nat \<Rightarrow> fault + real list" where
  "get_list H a =
     (if a < length H then (case H ! a of PyList vs \<Rightarrow> Inr vs | _ \<Rightarrow> Inl BadReference)
      else Inl BadReference)"

definition get_reflist :: "('x, 'h) obj list \<Rightarrow> nat \<Rightarrow> fault + nat list" where
  "get_reflist H a =
     (if a < length H then (case H ! a of RefList rs \<Rightarrow> Inr rs | _ \<Rightarrow> Inl BadReference)
      else Inl BadReference)"

definition get_model :: "('x, 'h) obj list \<Rightarrow> nat \<Rightarrow> fault + (nat \<times> nat \<times> 'h)" where
  "get_model H a =
     (if a < length H
      then (case H ! a of Model ax ay sd \<Rightarrow> Inr (ax, ay, sd) | _ \<Rightarrow> Inl BadReference)
      else Inl BadReference)"

text \<open>The model at an address, with the training tensors it refers to.\<close>

definition get_gp :: "('x, 'h) obj list \<Rightarrow> nat \<Rightarrow> fault + ('x, 'h) gp_model" where
  "get_gp H a =
     bnd (get_model H a) (\<lambda>(ax, ay, sd).
     bnd (get_rows H ax) (\<lambda>xs.
     bnd (get_vals H ay) (\<lambda>ys.
       Inr \<lparr>train_inputs = xs, train_targets = ys, state_dict = sd\<rparr>)))"

text \<open>
  \<^verbatim>\<open>a.astype(np.float64)\<close> and \<^verbatim>\<open>torch.tensor(a)\<close> copy their argument: a new object with
  the content of the old one.
\<close>

definition st_copy :: "('x, 'h) obj list \<Rightarrow> nat \<Rightarrow> fault + (nat \<times> ('x, 'h) obj list)" where
  "st_copy H a = (if a < length H then Inr (length H, H @ [H ! a]) else Inl BadReference)"

text \<open>
  \<^verbatim>\<open>l.append(v)\<close> changes the list object \<^verbatim>\<open>l\<close> in place, for a list of trace entries and
  for a list of references.
\<close>

definition st_append :: "('x, 'h) obj list \<Rightarrow> nat \<Rightarrow> real \<Rightarrow> fault + ('x, 'h) obj list" where
  "st_append H a v = bnd (get_list H a) (\<lambda>vs. Inr (H[a := PyList (vs @ [v])]))"

definition st_append_ref :: "('x, 'h) obj list \<Rightarrow> nat \<Rightarrow> nat \<Rightarrow> fault + ('x, 'h) obj list" where
  "st_append_ref H a r = bnd (get_reflist H a) (\<lambda>rs. Inr (H[a := RefList (rs @ [r])]))"

text \<open>
  \<^verbatim>\<open>train_test_split\<close> indexes its arguments with index arrays, which gives four new
  arrays.
\<close>

definition st_train_test_split ::
  "(nat \<Rightarrow> nat \<Rightarrow> nat list) \<Rightarrow> nat \<Rightarrow> nat \<Rightarrow> real \<Rightarrow> nat \<Rightarrow> ('x, 'h) obj list
     \<Rightarrow> fault + ((nat \<times> nat \<times> nat \<times> nat) \<times> ('x, 'h) obj list)" where
  "st_train_test_split sh aX ay test_size random_state H =
     bnd (get_rows H aX) (\<lambda>X.
     bnd (get_vals H ay) (\<lambda>y.
     bnd (raises (train_test_split sh X y test_size random_state))
       (\<lambda>(train_x, heldout_x, train_y, heldout_y).
          Inr ((length H, length H + 1, length H + 2, length H + 3),
               H @ [Rows train_x, Rows heldout_x, Vals train_y, Vals heldout_y]))))"

text \<open>
  \<^verbatim>\<open>initialize_model\<close> creates a model object that refers to the tensors it is given;
  \<^verbatim>\<open>load_state_dict\<close> then changes this new object in place.
\<close>

definition st_initialize_model ::
  "'h \<Rightarrow> nat \<Rightarrow> nat \<Rightarrow> 'h option \<Rightarrow> ('x, 'h) obj list \<Rightarrow> nat \<times> ('x, 'h) obj list" where
  "st_initialize_model dflt a_train_x a_train_obj sd H =
     (let model = length H; H1 = H @ [Model a_train_x a_train_obj dflt]
      in case sd of
           None \<Rightarrow> (model, H1)
         | Some d \<Rightarrow> (model, H1[model := Model a_train_x a_train_obj d]))"

text \<open>\<^verbatim>\<open>fit_gpytorch_model(mll_ei)\<close> changes the hyperparameters of the model in place.\<close>

definition st_fit_gpytorch_model ::
  "('h \<Rightarrow> 'x list \<Rightarrow> real list \<Rightarrow> 'h) \<Rightarrow> nat \<Rightarrow> ('x, 'h) obj list \<Rightarrow> fault + ('x, 'h) obj list" where
  "st_fit_gpytorch_model opt a_model H =
     bnd (get_model H a_model) (\<lambda>(ax, ay, sd).
     bnd (get_rows H ax) (\<lambda>xs.
     bnd (get_vals H ay) (\<lambda>ys.
       Inr (H[a_model := Model ax ay (opt sd xs ys)]))))"

text \<open>
  \<^verbatim>\<open>optimize_acqf_and_get_observation\<close> assigns its local names \<^verbatim>\<open>heldout_inputs\<close> and
  \<^verbatim>\<open>heldout_outputs\<close> to the tensors that \<^verbatim>\<open>torch.cat\<close> builds; the tensors of the
  caller stay as they are. The selected row and label are views into the old pool,
  which nothing writes to; as objects of their own they have the same content.
\<close>

definition st_optimize_acqf_and_get_observation ::
  "('x list \<Rightarrow> real) \<Rightarrow> nat \<Rightarrow> nat \<Rightarrow> ('x, 'h) obj list
     \<Rightarrow> fault + ((nat \<times> nat \<times> nat \<times> nat) \<times> ('x, 'h) obj list)" where
  "st_optimize_acqf_and_get_observation acq_func a_inputs a_outputs H =
     bnd (get_rows H a_inputs) (\<lambda>heldout_inputs.
     bnd (get_vals H a_outputs) (\<lambda>heldout_outputs.
     bnd (raises (optimize_acqf_and_get_observation acq_func heldout_inputs heldout_outputs))
       (\<lambda>(new_x, new_obj, inputs', outputs').
          Inr ((length H, length H + 1, length H + 2, length H + 3),
               H @ [Rows new_x, Vals new_obj, Rows inputs', Vals outputs']))))"

text \<open>
  \<^verbatim>\<open>update_random_observations\<close> appends to the list it is given, in place, and returns
  that same list with two new pool tensors.
\<close>

definition st_update_random_observations ::
  "('g \<Rightarrow> nat \<Rightarrow> nat list \<times> 'g) \<Rightarrow> 'g \<Rightarrow> nat \<Rightarrow> nat \<Rightarrow> nat \<Rightarrow> ('x, 'h) obj list
     \<Rightarrow> fault + ((nat \<times> nat \<times> nat \<times> 'g) \<times> ('x, 'h) obj list)" where
  "st_update_random_observations rp g a_best_random a_inputs a_outputs H =
     bnd (get_list H a_best_random) (\<lambda>best_random.
     bnd (get_rows H a_inputs) (\<lambda>heldout_inputs.
     bnd (get_vals H a_outputs) (\<lambda>heldout_outputs.
     bnd (raises (update_random_observations rp g best_random heldout_inputs heldout_outputs))
       (\<lambda>(best_random', inputs', outputs', g').
          Inr ((a_best_random, length H, length H + 1, g'),
               H[a_best_random := PyList best_random'] @ [Rows inputs', Vals outputs'])))))"

text \<open>The variables of one trial, as addresses; the generator state is a value.\<close>

record 'g trial_refs =
  train_x_at :: nat
  train_y_at :: nat
  heldout_x_at :: nat
  heldout_y_at :: nat
  heldout_x_random_at :: nat
  heldout_y_random_at :: nat
  best_observed_at :: nat
  best_random_at :: nat
  model_at :: nat
  rng_now :: 'g

text \<open>
  The statements of a trial before its loop: two new lists, the split, the conversions
  to tensors (a copy by \<^verbatim>\<open>astype\<close> and one by \<^verbatim>\<open>torch.tensor\<close> for the rows, one by
  \<^verbatim>\<open>torch.tensor\<close> for the labels), the pool of the random policy as a second name for
  the pool tensors, the model, and the two appends.
\<close>

definition st_trial_init ::
  "('x, 'h, 'g) env \<Rightarrow> nat \<Rightarrow> nat \<Rightarrow> real \<Rightarrow> 'g \<Rightarrow> nat \<Rightarrow> ('x, 'h) obj list
     \<Rightarrow> fault + ('g trial_refs \<times> ('x, 'h) obj list)" where
  "st_trial_init E aX ay holdout g trial H =
     (let best_observed = length H; best_rnd = length H + 1;
          H0 = H @ [PyList [], PyList []]
      in
     bnd (st_train_test_split (shuffle E) aX ay holdout trial H0) (\<lambda>((tx, hx, ty, hy), H1).
     bnd (get_vals H1 ty) (\<lambda>train_y.
     bnd (raises (np_max train_y)) (\<lambda>best_observed_value_ei.
     bnd (st_copy H1 tx) (\<lambda>(tx1, H2).
     bnd (st_copy H2 tx1) (\<lambda>(tx2, H3).
     bnd (st_copy H3 hx) (\<lambda>(hx1, H4).
     bnd (st_copy H4 hx1) (\<lambda>(hx2, H5).
     bnd (st_copy H5 ty) (\<lambda>(ty1, H6).
     bnd (st_copy H6 hy) (\<lambda>(hy1, H7).
     (case st_initialize_model (defaults E) tx2 ty1 None H7 of (model, H8) \<Rightarrow>
     bnd (st_append H8 best_observed best_observed_value_ei) (\<lambda>H9.
     bnd (st_append H9 best_rnd best_observed_value_ei) (\<lambda>H10.
       Inr (\<lparr>train_x_at = tx2, train_y_at = ty1,
              heldout_x_at = hx2, heldout_y_at = hy1,
              heldout_x_random_at = hx2, heldout_y_random_at = hy1,
              best_observed_at = best_observed, best_random_at = best_rnd,
              model_at = model, rng_now = g\<rparr>, H10))))))))))))))"

text \<open>
  The body of the loop over \<^verbatim>\<open>iteration\<close>: the fit in place, the selection, two new
  train tensors by \<^verbatim>\<open>torch.cat\<close>, the random policy, the append to the GP trace in place
  and a new model.
\<close>

definition st_bo_iteration ::
  "('x, 'h, 'g) env \<Rightarrow> 'g trial_refs \<Rightarrow> ('x, 'h) obj list
     \<Rightarrow> fault + ('g trial_refs \<times> ('x, 'h) obj list)" where
  "st_bo_iteration E v H =
     bnd (st_fit_gpytorch_model (optimiser E) (model_at v) H) (\<lambda>H1.
     bnd (get_gp H1 (model_at v)) (\<lambda>fitted.
     bnd (get_vals H1 (train_y_at v)) (\<lambda>train_y.
     bnd (raises (torch_max train_y)) (\<lambda>best_f.
     bnd (st_optimize_acqf_and_get_observation (expected_improvement E fitted best_f)
            (heldout_x_at v) (heldout_y_at v) H1) (\<lambda>((new_x, new_obj, hx, hy), H2).
     bnd (get_rows H2 (train_x_at v)) (\<lambda>train_x.
     bnd (get_rows H2 new_x) (\<lambda>new_x_ei.
     bnd (get_vals H2 new_obj) (\<lambda>new_obj_ei.
     (let tx = length H2; ty = length H2 + 1;
          H3 = H2 @ [Rows (train_x @ new_x_ei), Vals (train_y @ new_obj_ei)]
      in
     bnd (st_update_random_observations (randperm E) (rng_now v) (best_random_at v)
            (heldout_x_random_at v) (heldout_y_random_at v) H3) (\<lambda>((br, hxr, hyr, g'), H4).
     bnd (get_list H4 (best_observed_at v)) (\<lambda>best_observed.
     bnd (raises (getitem_last best_observed)) (\<lambda>prev.
     (let H5 = H4[best_observed_at v :=
                   PyList (best_observed @ map (\<lambda>v. max v prev) new_obj_ei)]
      in
     (case st_initialize_model (defaults E) tx ty (Some (state_dict fitted)) H5 of
        (model, H6) \<Rightarrow>
       Inr (\<lparr>train_x_at = tx, train_y_at = ty,
              heldout_x_at = hx, heldout_y_at = hy,
              heldout_x_random_at = hxr, heldout_y_random_at = hyr,
              best_observed_at = best_observed_at v, best_random_at = br,
              model_at = model, rng_now = g'\<rparr>, H6)))))))))))))))"

primrec st_bo_loop ::
  "('x, 'h, 'g) env \<Rightarrow> nat \<Rightarrow> 'g trial_refs \<Rightarrow> ('x, 'h) obj list
     \<Rightarrow> fault + ('g trial_refs \<times> ('x, 'h) obj list)" where
  "st_bo_loop E 0 v H = Inr (v, H)"
| "st_bo_loop E (Suc n) v H = bnd (st_bo_iteration E v H) (\<lambda>(v', H'). st_bo_loop E n v' H')"

text \<open>
  The variables of the notebook that outlive a trial, as addresses: \<^verbatim>\<open>X\<close>, \<^verbatim>\<open>y\<close> and the
  two collections, to which a trial appends references to its two traces.
\<close>

record 'g notebook_refs =
  features_at :: nat
  labels_at :: nat
  best_observed_all_at :: nat
  best_random_all_at :: nat
  torch_rng_now :: 'g

definition st_run_trial ::
  "config \<Rightarrow> ('x, 'h, 'g) env \<Rightarrow> 'g notebook_refs \<Rightarrow> nat \<Rightarrow> ('x, 'h) obj list
     \<Rightarrow> fault + ('g notebook_refs \<times> ('x, 'h) obj list)" where
  "st_run_trial C E nb trial H =
     bnd (st_trial_init E (features_at nb) (labels_at nb) (holdout_set_size C)
            (torch_rng_now nb) trial H) (\<lambda>(v0, H1).
     bnd (st_bo_loop E (N_ITERS C) v0 H1) (\<lambda>(v, H2).
     bnd (st_append_ref H2 (best_observed_all_at nb) (best_observed_at v)) (\<lambda>H3.
     bnd (st_append_ref H3 (best_random_all_at nb) (best_random_at v)) (\<lambda>H4.
       Inr (nb\<lparr>torch_rng_now := rng_now v\<rparr>, H4)))))"

fun st_trials_loop ::
  "config \<Rightarrow> ('x, 'h, 'g) env \<Rightarrow> nat list \<Rightarrow> 'g notebook_refs \<Rightarrow> ('x, 'h) obj list
     \<Rightarrow> fault + ('g notebook_refs \<times> ('x, 'h) obj list)" where
  "st_trials_loop C E [] nb H = Inr (nb, H)"
| "st_trials_loop C E (trial # rest) nb H =
     bnd (st_run_trial C E nb trial H) (\<lambda>(nb', H'). st_trials_loop C E rest nb' H')"

text \<open>
  The experiment cell, from a store in which \<^verbatim>\<open>X\<close> and \<^verbatim>\<open>y\<close> are at the addresses \<open>aX\<close>
  and \<open>ay\<close>: two new collections, then the trials.
\<close>

definition st_run_experiment ::
  "config \<Rightarrow> ('x, 'h, 'g) env \<Rightarrow> nat \<Rightarrow> nat \<Rightarrow> 'g \<Rightarrow> ('x, 'h) obj list
     \<Rightarrow> fault + ('g notebook_refs \<times> ('x, 'h) obj list)" where
  "st_run_experiment C E aX ay g H =
     st_trials_loop C E [1..<N_TRIALS C + 1]
       \<lparr>features_at = aX, labels_at = ay,
        best_observed_all_at = length H, best_random_all_at = length H + 1,
        torch_rng_now = g\<rparr>
       (H @ [RefList [], RefList []])"

text \<open>
  \<open>keeps S H H'\<close>: the store \<open>H'\<close> has every object of \<open>H\<close>, and outside the addresses
  \<open>S\<close> with the content it has in \<open>H\<close>.
\<close>

definition keeps :: "nat set \<Rightarrow> 'a list \<Rightarrow> 'a list \<Rightarrow> bool" where
  "keeps S H H' \<longleftrightarrow> length H \<le> length H' \<and> (\<forall>a < length H. a \<notin> S \<longrightarrow> H' ! a = H ! a)"

text \<open>
  \<open>refs_hold H v s\<close>: the variables \<open>v\<close> of a trial refer, in the store \<open>H\<close>, to the
  values that the trial state \<open>s\<close> holds. \<open>notebook_holds\<close> is the same for the
  variables of the notebook, where a collection refers to the lists of its traces.
\<close>

definition refs_hold ::
  "('x, 'h) obj list \<Rightarrow> 'g trial_refs \<Rightarrow> ('x, 'h, 'g) trial_state \<Rightarrow> bool" where
  "refs_hold H v s \<longleftrightarrow>
     get_rows H (train_x_at v) = Inr (train_x_ei s)
   \<and> get_vals H (train_y_at v) = Inr (train_y_ei s)
   \<and> get_rows H (heldout_x_at v) = Inr (heldout_x_ei s)
   \<and> get_vals H (heldout_y_at v) = Inr (heldout_y_ei s)
   \<and> get_rows H (heldout_x_random_at v) = Inr (heldout_x_random s)
   \<and> get_vals H (heldout_y_random_at v) = Inr (heldout_y_random s)
   \<and> get_list H (best_observed_at v) = Inr (best_observed_ei s)
   \<and> get_list H (best_random_at v) = Inr (best_random s)
   \<and> get_gp H (model_at v) = Inr (model_ei s)
   \<and> rng_now v = rng s
   \<and> best_observed_at v \<noteq> best_random_at v"

definition traces_at :: "('x, 'h) obj list \<Rightarrow> nat \<Rightarrow> real list list \<Rightarrow> bool" where
  "traces_at H a traces \<longleftrightarrow>
     (\<exists>rs. get_reflist H a = Inr rs \<and> map (get_list H) rs = map Inr traces)"

definition notebook_holds ::
  "('x, 'h) obj list \<Rightarrow> 'g notebook_refs \<Rightarrow> ('x, 'g) notebook_state \<Rightarrow> bool" where
  "notebook_holds H nb st \<longleftrightarrow>
     get_rows H (features_at nb) = Inr (features st)
   \<and> get_vals H (labels_at nb) = Inr (labels st)
   \<and> traces_at H (best_observed_all_at nb) (best_observed_all_ei st)
   \<and> traces_at H (best_random_all_at nb) (best_random_all st)
   \<and> torch_rng_now nb = torch_rng st
   \<and> best_observed_all_at nb \<noteq> best_random_all_at nb"

subsection \<open>A sample experiment\<close>

text \<open>
  Six molecules with one feature each, a shuffle and a generator that rotate, an
  optimiser that counts the training rows and an acquisition value that prefers large
  features: a concrete instance on which the statements below are exercised.
\<close>

definition sample_shuffle :: "nat \<Rightarrow> nat \<Rightarrow> nat list" where
  "sample_shuffle seed n = rotate seed (rev [0..<n])"

definition sample_randperm :: "nat \<Rightarrow> nat \<Rightarrow> nat list \<times> nat" where
  "sample_randperm g n = (rotate g [0..<n], Suc g)"

definition sample_optimiser :: "nat \<Rightarrow> real list \<Rightarrow> real list \<Rightarrow> nat" where
  "sample_optimiser h xs ys = h + length xs"

definition sample_ei :: "(real, nat) gp_model \<Rightarrow> real \<Rightarrow> real list \<Rightarrow> real" where
  "sample_ei m best_f q = sum_list q - best_f"

definition sample_env :: "(real, nat, nat) env" where
  "sample_env =
     \<lparr>shuffle = sample_shuffle, randperm = sample_randperm, defaults = 0,
      optimiser = sample_optimiser, expected_improvement = sample_ei\<rparr>"

definition sample_config :: config where
  "sample_config = \<lparr>N_TRIALS = 2, holdout_set_size = 1 / 2, N_ITERS = 2\<rparr>"

definition sample_X :: "real list" where
  "sample_X = [1, 2, 4, 6, 5, 0]"

definition sample_y :: "real list" where
  "sample_y = [10, 20, 40, 60, 50, 0]"

definition sample_notebook :: "(real, nat) notebook_state" where
  "sample_notebook =
     \<lparr>features = sample_X, labels = sample_y,
      best_observed_all_ei = [], best_random_all = [], torch_rng = 0\<rparr>"

text \<open>The first trial of the sample: after the split, after one and after two iterations.\<close>

definition sample_s0 :: "(real, nat, nat) trial_state" where
  "sample_s0 =
     \<lparr>train_x_ei = [2, 1, 0], train_y_ei = [20, 10, 0],
      heldout_x_ei = [5, 6, 4], heldout_y_ei = [50, 60, 40],
      heldout_x_random = [5, 6, 4], heldout_y_random = [50, 60, 40],
      best_observed_ei = [20], best_random = [20],
      model_ei = \<lparr>train_inputs = [2, 1, 0], train_targets = [20, 10, 0], state_dict = 0\<rparr>,
      rng = 0\<rparr>"

definition sample_s1 :: "(real, nat, nat) trial_state" where
  "sample_s1 =
     \<lparr>train_x_ei = [2, 1, 0, 6], train_y_ei = [20, 10, 0, 60],
      heldout_x_ei = [5, 4], heldout_y_ei = [50, 40],
      heldout_x_random = [6, 4], heldout_y_random = [60, 40],
      best_observed_ei = [20, 60], best_random = [20, 50],
      model_ei = \<lparr>train_inputs = [2, 1, 0, 6], train_targets = [20, 10, 0, 60], state_dict = 3\<rparr>,
      rng = 1\<rparr>"

definition sample_s2 :: "(real, nat, nat) trial_state" where
  "sample_s2 =
     \<lparr>train_x_ei = [2, 1, 0, 6, 5], train_y_ei = [20, 10, 0, 60, 50],
      heldout_x_ei = [4], heldout_y_ei = [40],
      heldout_x_random = [6], heldout_y_random = [60],
      best_observed_ei = [20, 60, 60], best_random = [20, 50, 50],
      model_ei = \<lparr>train_inputs = [2, 1, 0, 6, 5], train_targets = [20, 10, 0, 60, 50],
                  state_dict = 7\<rparr>,
      rng = 2\<rparr>"

definition sample_result :: "(real, nat) notebook_state" where
  "sample_result =
     \<lparr>features = [1, 2, 4, 6, 5, 0], labels = [10, 20, 40, 60, 50, 0],
      best_observed_all_ei = [[20, 60, 60], [50, 60, 60]],
      best_random_all = [[20, 50, 50], [50, 50, 50]], torch_rng = 4\<rparr>"

text \<open>A pool of four points; two of them share the largest feature.\<close>

definition sample_pool_x :: "real list" where
  "sample_pool_x = [1, 3, 3, 2]"

definition sample_pool_y :: "real list" where
  "sample_pool_y = [10, 30, 31, 20]"

text \<open>
  The store of the sample before the experiment cell, \<^verbatim>\<open>X\<close> at address 0 and \<^verbatim>\<open>y\<close> at
  address 1, and the variables and the store after it.
\<close>

definition sample_store :: "(real, nat) obj list" where
  "sample_store = [Rows sample_X, Vals sample_y]"

definition sample_refs :: "nat notebook_refs" where
  "sample_refs = \<lparr>features_at = 0, labels_at = 1, best_observed_all_at = 2,
     best_random_all_at = 3, torch_rng_now = 4\<rparr>"

definition sample_store_after :: "(real, nat) obj list" where
  "sample_store_after =
     [Rows [1, 2, 4, 6, 5, 0], Vals [10, 20, 40, 60, 50, 0],
      RefList [4, 35], RefList [5, 36],
      PyList [20, 60, 60], PyList [20, 50, 50],
      Rows [2, 1, 0], Rows [5, 6, 4], Vals [20, 10, 0], Vals [50, 60, 40],
      Rows [2, 1, 0], Rows [2, 1, 0], Rows [5, 6, 4], Rows [5, 6, 4],
      Vals [20, 10, 0], Vals [50, 60, 40], Model 11 14 3,
      Rows [6], Vals [60], Rows [5, 4], Vals [50, 40],
      Rows [2, 1, 0, 6], Vals [20, 10, 0, 60], Rows [6, 4], Vals [60, 40], Model 21 22 7,
      Rows [5], Vals [50], Rows [4], Vals [40],
      Rows [2, 1, 0, 6, 5], Vals [20, 10, 0, 60, 50], Rows [6], Vals [60], Model 30 31 7,
      PyList [50, 60, 60], PyList [50, 50, 50],
      Rows [1, 0, 5], Rows [6, 4, 2], Vals [10, 0, 50], Vals [60, 40, 20],
      Rows [1, 0, 5], Rows [1, 0, 5], Rows [6, 4, 2], Rows [6, 4, 2],
      Vals [10, 0, 50], Vals [60, 40, 20], Model 42 45 3,
      Rows [6], Vals [60], Rows [4, 2], Vals [40, 20],
      Rows [1, 0, 5, 6], Vals [10, 0, 50, 60], Rows [6, 4], Vals [60, 40], Model 52 53 7,
      Rows [4], Vals [40], Rows [2], Vals [20],
      Rows [1, 0, 5, 6, 4], Vals [10, 0, 50, 60, 40], Rows [6], Vals [60], Model 61 62 7]"

section \<open>Properties\<close>

subsection \<open>The primitives\<close>

lemma acq_vals_loop_map:
  "\<forall>i \<in> set idxs. i < length heldout_inputs \<Longrightarrow>
   acq_vals_loop acq_func heldout_inputs idxs acc =
     Inr (acc @ map (\<lambda>i. acq_func (unsqueeze (heldout_inputs ! i))) idxs)"
  by (induction idxs arbitrary: acc) (simp_all add: getitem_def)

lemma map_nth_upt_take:
  "n \<le> length xs \<Longrightarrow> map (\<lambda>i. f (xs ! i)) [0..<n] = map f (take n xs)"
  by (rule nth_equalityI) simp_all

lemma acq_vals_loop_all:
  assumes "length heldout_outputs \<le> length heldout_inputs"
  shows "acq_vals_loop acq_func heldout_inputs [0..<length heldout_outputs] [] =
     Inr (map (\<lambda>row. acq_func (unsqueeze row)) (take (length heldout_outputs) heldout_inputs))"
  using assms
  by (simp add: acq_vals_loop_map map_nth_upt_take [where f = "\<lambda>row. acq_func (unsqueeze row)"])

lemma takeWhile_neq_less:
  "m \<in> set vs \<Longrightarrow> length (takeWhile (\<lambda>v. v \<noteq> m) vs) < length vs"
  by (induction vs) auto

lemma takeWhile_neq_before:
  "j < length (takeWhile (\<lambda>v. v \<noteq> m) vs) \<Longrightarrow> vs ! j \<noteq> m"
proof -
  assume j: "j < length (takeWhile (\<lambda>v. v \<noteq> m) vs)"
  then have "takeWhile (\<lambda>v. v \<noteq> m) vs ! j \<in> set (takeWhile (\<lambda>v. v \<noteq> m) vs)"
    by (rule nth_mem)
  then have "takeWhile (\<lambda>v. v \<noteq> m) vs ! j \<noteq> m"
    by (rule set_takeWhileD [THEN conjunct2])
  then show ?thesis using j by (simp add: takeWhile_nth)
qed

lemma torch_argmax_first:
  assumes "vs \<noteq> []"
  shows "\<exists>b. torch_argmax vs = Inr b \<and> b < length vs
           \<and> (\<forall>j < length vs. vs ! j \<le> vs ! b) \<and> (\<forall>j < b. vs ! j < vs ! b)"
proof -
  let ?m = "Max (set vs)"
  let ?b = "length (takeWhile (\<lambda>v. v \<noteq> ?m) vs)"
  have mem: "?m \<in> set vs" using assms by simp
  have lt: "?b < length vs" using mem by (rule takeWhile_neq_less)
  have eq: "vs ! ?b = ?m" using nth_length_takeWhile [OF lt] by simp
  have le: "\<forall>j < length vs. vs ! j \<le> ?m" by simp
  have "\<forall>j < ?b. vs ! j < ?m"
  proof (intro allI impI)
    fix j assume j: "j < ?b"
    then have "j < length vs" using lt by simp
    then have "vs ! j \<le> ?m" by simp
    moreover have "vs ! j \<noteq> ?m" using j by (rule takeWhile_neq_before)
    ultimately show "vs ! j < ?m" by simp
  qed
  then show ?thesis using lt eq le assms by (simp add: torch_argmax_def)
qed

lemma optimize_Inr:
  assumes "optimize_acqf_and_get_observation acq_func xs ys = Inr (nx, no, hx, hy)"
  shows "\<exists>b. b < length xs \<and> b < length ys \<and> nx = [xs ! b] \<and> no = [ys ! b]
           \<and> hx = take b xs @ drop (Suc b) xs \<and> hy = take b ys @ drop (Suc b) ys"
proof -
  from assms obtain vs where 1: "acq_vals_loop acq_func xs [0..<length ys] [] = Inr vs"
    by (cases "acq_vals_loop acq_func xs [0..<length ys] []")
       (simp_all add: optimize_acqf_and_get_observation_def)
  from assms 1 obtain b where 2: "torch_argmax vs = Inr b"
    by (cases "torch_argmax vs") (simp_all add: optimize_acqf_and_get_observation_def)
  from assms 1 2 have 3: "b < length xs"
    by (cases "b < length xs") (simp_all add: optimize_acqf_and_get_observation_def getitem_def)
  from assms 1 2 3 have 4: "b < length ys"
    by (cases "b < length ys") (simp_all add: optimize_acqf_and_get_observation_def getitem_def)
  from assms 1 2 3 4 show ?thesis
    by (simp add: optimize_acqf_and_get_observation_def getitem_def unsqueeze_def) blast
qed

lemma optimize_total:
  assumes "ys \<noteq> []" and "length ys \<le> length xs"
  shows "\<exists>b < length ys. 
           optimize_acqf_and_get_observation acq_func xs ys =
             Inr (unsqueeze (xs ! b), unsqueeze (ys ! b),
                  take b xs @ drop (b + 1) xs, take b ys @ drop (b + 1) ys)
         \<and> (\<forall>j < length ys. acq_func (unsqueeze (xs ! j)) \<le> acq_func (unsqueeze (xs ! b)))
         \<and> (\<forall>j < b. acq_func (unsqueeze (xs ! j)) < acq_func (unsqueeze (xs ! b)))"
proof -
  let ?vs = "map (\<lambda>row. acq_func (unsqueeze row)) (take (length ys) xs)"
  have loop: "acq_vals_loop acq_func xs [0..<length ys] [] = Inr ?vs"
    using assms(2) by (rule acq_vals_loop_all)
  have len: "length ?vs = length ys" using assms(2) by simp
  have ne: "?vs \<noteq> []" using assms by (cases ys) auto
  from torch_argmax_first [OF ne] obtain b where
    b: "torch_argmax ?vs = Inr b" "b < length ?vs"
       "\<forall>j < length ?vs. ?vs ! j \<le> ?vs ! b" "\<forall>j < b. ?vs ! j < ?vs ! b"
    by blast
  have bl: "b < length ys" using b(2) len by simp
  have nth: "\<And>j. j < length ys \<Longrightarrow> ?vs ! j = acq_func (unsqueeze (xs ! j))"
    using assms(2) by simp
  have "optimize_acqf_and_get_observation acq_func xs ys =
             Inr (unsqueeze (xs ! b), unsqueeze (ys ! b),
                  take b xs @ drop (b + 1) xs, take b ys @ drop (b + 1) ys)"
    using loop b(1) bl assms(2) by (simp add: optimize_acqf_and_get_observation_def getitem_def)
  moreover have "\<forall>j < length ys. acq_func (unsqueeze (xs ! j)) \<le> acq_func (unsqueeze (xs ! b))"
    using b(3) nth bl len by simp
  moreover have "\<forall>j < b. acq_func (unsqueeze (xs ! j)) < acq_func (unsqueeze (xs ! b))"
  proof (intro allI impI)
    fix j assume "j < b"
    then have "?vs ! j < ?vs ! b" and "j < length ys" using b(4) bl by simp_all
    then show "acq_func (unsqueeze (xs ! j)) < acq_func (unsqueeze (xs ! b))"
      using nth bl by simp
  qed
  ultimately show ?thesis using bl by blast
qed

lemma update_random_Inr:
  assumes "update_random_observations rp g br xs ys = Inr (br', hx, hy, g')"
  shows "\<exists>c. c < length ys \<and> br \<noteq> [] \<and> br' = br @ [max (last br) (ys ! c)]
           \<and> hx = take c xs @ drop (Suc c) xs \<and> hy = take c ys @ drop (Suc c) ys"
proof -
  obtain perm g1 where p: "rp g (length ys) = (perm, g1)" by (cases "rp g (length ys)")
  from assms p have 1: "0 < length perm"
    by (cases "0 < length perm") (simp_all add: update_random_observations_def getitem_def)
  from assms p 1 have 2: "perm ! 0 < length ys"
    by (cases "perm ! 0 < length ys") (simp_all add: update_random_observations_def getitem_def)
  from assms p 1 2 have 3: "br \<noteq> []"
    by (cases "br = []")
       (simp_all add: update_random_observations_def getitem_def getitem_last_def)
  from assms p 1 2 3 show ?thesis
    by (simp add: update_random_observations_def getitem_def getitem_last_def) blast
qed

lemma update_random_total:
  assumes "valid_randperm rp" and "ys \<noteq> []" and "br \<noteq> []"
  shows "\<exists>r. update_random_observations rp g br xs ys = Inr r"
proof -
  obtain perm g' where p: "rp g (length ys) = (perm, g')" by (cases "rp g (length ys)")
  have "set (fst (rp g (length ys))) = {..<length ys}"
    using assms(1) unfolding valid_randperm_def by blast
  then have s: "set perm = {..<length ys}" using p by simp
  have "0 < length ys" using assms(2) by simp
  then have "0 \<in> set perm" unfolding s by simp
  then have ne: "0 < length perm" by (cases perm) simp_all
  then have "perm ! 0 \<in> set perm" by (rule nth_mem)
  then have lt: "perm ! 0 < length ys" unfolding s by simp
  have "update_random_observations rp g br xs ys =
          Inr (br @ [max (last br) (ys ! (perm ! 0))],
               take (perm ! 0) xs @ drop (perm ! 0 + 1) xs,
               take (perm ! 0) ys @ drop (perm ! 0 + 1) ys, g')"
    unfolding update_random_observations_def p getitem_def getitem_last_def
    using ne lt assms(3) by simp
  then show ?thesis by blast
qed

lemma update_random_empty:
  assumes "valid_randperm rp"
  shows "update_random_observations rp g br xs [] = Inl IndexError"
proof -
  obtain perm g' where p: "rp g 0 = (perm, g')" by (cases "rp g 0")
  have "set (fst (rp g 0)) = {..<0}"
    using assms unfolding valid_randperm_def by blast
  then have "set perm = {..<0}" using p by simp
  then have "perm = []" by simp
  then show ?thesis using p by (simp add: update_random_observations_def getitem_def)
qed

lemma optimize_empty:
  "optimize_acqf_and_get_observation acq_func xs [] = Inl EmptyReductionError"
  by (simp add: optimize_acqf_and_get_observation_def torch_argmax_def)

subsection \<open>One iteration, the loop and the split\<close>

lemma bo_iteration_Inr:
  assumes "bo_iteration E s = Inr s'"
  shows "\<exists>b c. b < length (heldout_x_ei s) \<and> b < length (heldout_y_ei s)
           \<and> c < length (heldout_y_random s)
           \<and> train_y_ei s \<noteq> [] \<and> best_observed_ei s \<noteq> [] \<and> best_random s \<noteq> []
           \<and> train_x_ei s' = train_x_ei s @ [heldout_x_ei s ! b]
           \<and> train_y_ei s' = train_y_ei s @ [heldout_y_ei s ! b]
           \<and> heldout_x_ei s' = take b (heldout_x_ei s) @ drop (Suc b) (heldout_x_ei s)
           \<and> heldout_y_ei s' = take b (heldout_y_ei s) @ drop (Suc b) (heldout_y_ei s)
           \<and> heldout_x_random s' = take c (heldout_x_random s) @ drop (Suc c) (heldout_x_random s)
           \<and> heldout_y_random s' = take c (heldout_y_random s) @ drop (Suc c) (heldout_y_random s)
           \<and> best_observed_ei s' =
                best_observed_ei s @ [max (heldout_y_ei s ! b) (last (best_observed_ei s))]
           \<and> best_random s' =
                best_random s @ [max (last (best_random s)) (heldout_y_random s ! c)]
           \<and> model_ei s' =
                initialize_model (defaults E) (train_x_ei s') (train_y_ei s')
                  (Some (state_dict (fit_gpytorch_model (optimiser E) (model_ei s))))"
proof -
  let ?m = "fit_gpytorch_model (optimiser E) (model_ei s)"
  from assms obtain best_f where 1: "torch_max (train_y_ei s) = Inr best_f"
    by (cases "torch_max (train_y_ei s)") (simp_all add: bo_iteration_def Let_def)
  then have ne: "train_y_ei s \<noteq> []" by (auto simp: torch_max_def split: if_splits)
  let ?opt = "optimize_acqf_and_get_observation (expected_improvement E ?m best_f)
                (heldout_x_ei s) (heldout_y_ei s)"
  from assms 1 obtain r where r: "?opt = Inr r"
    by (cases ?opt) (simp_all add: bo_iteration_def Let_def)
  obtain nx no hx hy where 2: "?opt = Inr (nx, no, hx, hy)"
    using r by (cases r) simp
  let ?rnd = "update_random_observations (randperm E) (rng s) (best_random s)
                (heldout_x_random s) (heldout_y_random s)"
  from assms 1 2 obtain q where q: "?rnd = Inr q"
    by (cases ?rnd) (simp_all add: bo_iteration_def Let_def)
  obtain br hxr hyr g' where 3: "?rnd = Inr (br, hxr, hyr, g')"
    using q by (cases q) simp
  from assms 1 2 3 obtain prev where 4: "getitem_last (best_observed_ei s) = Inr prev"
    by (cases "getitem_last (best_observed_ei s)") (simp_all add: bo_iteration_def Let_def)
  then have bne: "best_observed_ei s \<noteq> []" and prev: "prev = last (best_observed_ei s)"
    by (auto simp: getitem_last_def split: if_splits)
  from optimize_Inr [OF 2] obtain b where
    b: "b < length (heldout_x_ei s)" "b < length (heldout_y_ei s)"
       "nx = [heldout_x_ei s ! b]" "no = [heldout_y_ei s ! b]"
       "hx = take b (heldout_x_ei s) @ drop (Suc b) (heldout_x_ei s)"
       "hy = take b (heldout_y_ei s) @ drop (Suc b) (heldout_y_ei s)"
    by blast
  from update_random_Inr [OF 3] obtain c where
    c: "c < length (heldout_y_random s)" "best_random s \<noteq> []"
       "br = best_random s @ [max (last (best_random s)) (heldout_y_random s ! c)]"
       "hxr = take c (heldout_x_random s) @ drop (Suc c) (heldout_x_random s)"
       "hyr = take c (heldout_y_random s) @ drop (Suc c) (heldout_y_random s)"
    by blast
  from assms 1 2 3 4 have s': "s' =
      \<lparr>train_x_ei = train_x_ei s @ nx, train_y_ei = train_y_ei s @ no,
        heldout_x_ei = hx, heldout_y_ei = hy,
        heldout_x_random = hxr, heldout_y_random = hyr,
        best_observed_ei = best_observed_ei s @ map (\<lambda>v. max v prev) no,
        best_random = br,
        model_ei = initialize_model (defaults E) (train_x_ei s @ nx) (train_y_ei s @ no)
                     (Some (state_dict ?m)),
        rng = g'\<rparr>"
    by (simp add: bo_iteration_def Let_def)
  show ?thesis
    apply (rule exI [of _ b], rule exI [of _ c])
    using b c ne bne prev by (simp add: s')
qed

lemma bo_loop_Suc_right:
  "bo_loop E (Suc n) s0 = Inr s' \<longleftrightarrow>
     (\<exists>s. bo_loop E n s0 = Inr s \<and> bo_iteration E s = Inr s')"
proof (induction n arbitrary: s0)
  case 0
  show ?case by (cases "bo_iteration E s0") simp_all
next
  case (Suc n)
  show ?case
  proof (cases "bo_iteration E s0")
    case (Inl e)
    then show ?thesis by simp
  next
    case (Inr s1)
    have "bo_loop E (Suc (Suc n)) s0 = bo_loop E (Suc n) s1" using Inr by simp
    moreover have "bo_loop E (Suc n) s0 = bo_loop E n s1" using Inr by simp
    ultimately show ?thesis using Suc.IH [of s1] by simp
  qed
qed


lemma trial_init_Inr:
  assumes "trial_init E X y h g trial = Inr s0"
  shows "\<exists>train_x heldout_x train_y heldout_y.
           train_test_split (shuffle E) X y h trial = Inr (train_x, heldout_x, train_y, heldout_y)
           \<and> train_y \<noteq> []
           \<and> train_x_ei s0 = train_x \<and> train_y_ei s0 = train_y
           \<and> heldout_x_ei s0 = heldout_x \<and> heldout_y_ei s0 = heldout_y
           \<and> heldout_x_random s0 = heldout_x \<and> heldout_y_random s0 = heldout_y
           \<and> best_observed_ei s0 = [Max (set train_y)]
           \<and> best_random s0 = [Max (set train_y)]
           \<and> model_ei s0 = initialize_model (defaults E) train_x train_y None
           \<and> rng s0 = g"
proof -
  let ?sp = "train_test_split (shuffle E) X y h trial"
  from assms obtain r where r: "?sp = Inr r"
    by (cases ?sp) (simp_all add: trial_init_def)
  obtain train_x heldout_x train_y heldout_y where
    1: "?sp = Inr (train_x, heldout_x, train_y, heldout_y)"
    using r by (cases r) simp
  from assms 1 obtain m where 2: "np_max train_y = Inr m"
    by (cases "np_max train_y") (simp_all add: trial_init_def)
  then have ne: "train_y \<noteq> []" and m: "m = Max (set train_y)"
    by (auto simp: np_max_def split: if_splits)
  from assms 1 2 have "s0 =
      \<lparr>train_x_ei = train_x, train_y_ei = train_y,
        heldout_x_ei = heldout_x, heldout_y_ei = heldout_y,
        heldout_x_random = heldout_x, heldout_y_random = heldout_y,
        best_observed_ei = [m], best_random = [m],
        model_ei = initialize_model (defaults E) train_x train_y None, rng = g\<rparr>"
    by (simp add: trial_init_def)
  then show ?thesis using 1 ne m by simp
qed


subsection \<open>Invariants of a trial\<close>

lemma set_delete_subset: "set (take c xs @ drop (Suc c) xs) \<subseteq> set xs"
  by (auto dest: in_set_takeD in_set_dropD)

lemma Max_snoc: "ys \<noteq> [] \<Longrightarrow> Max (set (ys @ [v])) = max v (Max (set ys))"
  by simp

lemma initialize_model_fields:
  "train_inputs (initialize_model d tx ty sd) = tx"
  "train_targets (initialize_model d tx ty sd) = ty"
  "state_dict (initialize_model d tx ty sd) = (case sd of None \<Rightarrow> d | Some v \<Rightarrow> v)"
  by (cases sd; simp add: initialize_model_def TanimotoGP_def load_state_dict_def)+

lemma bo_loop_inv:
  assumes init: "trial_init E X y h g trial = Inr s0"
    and run: "bo_loop E n s0 = Inr s"
  shows "length (best_observed_ei s) = Suc n \<and> length (best_random s) = Suc n
       \<and> length (train_y_ei s) = length (train_y_ei s0) + n
       \<and> train_y_ei s \<noteq> []
       \<and> last (best_observed_ei s) = Max (set (train_y_ei s))
       \<and> set (heldout_y_random s) \<subseteq> set (heldout_y_random s0)
       \<and> best_observed_ei s ! 0 = Max (set (train_y_ei s0))
       \<and> best_random s ! 0 = Max (set (train_y_ei s0))
       \<and> train_inputs (model_ei s) = train_x_ei s
       \<and> train_targets (model_ei s) = train_y_ei s"
  using run
proof (induction n arbitrary: s)
  case 0
  then have "s = s0" by simp
  then show ?case using trial_init_Inr [OF init] by (auto simp: initialize_model_fields)
next
  case (Suc n)
  from Suc.prems obtain sm where sm: "bo_loop E n s0 = Inr sm" and it: "bo_iteration E sm = Inr s"
    unfolding bo_loop_Suc_right by blast
  note IH = Suc.IH [OF sm]
  from bo_iteration_Inr [OF it] obtain b c where
    st: "b < length (heldout_y_ei sm)" "c < length (heldout_y_random sm)"
        "train_y_ei s = train_y_ei sm @ [heldout_y_ei sm ! b]"
        "heldout_y_random s = take c (heldout_y_random sm) @ drop (Suc c) (heldout_y_random sm)"
        "best_observed_ei s =
           best_observed_ei sm @ [max (heldout_y_ei sm ! b) (last (best_observed_ei sm))]"
        "best_random s = best_random sm @ [max (last (best_random sm)) (heldout_y_random sm ! c)]"
        "model_ei s = initialize_model (defaults E) (train_x_ei s) (train_y_ei s)
                        (Some (state_dict (fit_gpytorch_model (optimiser E) (model_ei sm))))"
    by blast
  have 1: "length (best_observed_ei s) = Suc (Suc n)" "length (best_random s) = Suc (Suc n)"
    using IH st(5,6) by simp_all
  have 2: "length (train_y_ei s) = length (train_y_ei s0) + Suc n" "train_y_ei s \<noteq> []"
    using IH st(3) by simp_all
  have 3: "last (best_observed_ei s) = Max (set (train_y_ei s))"
    using IH unfolding st(3,5) by (simp add: Max_snoc)
  have "set (heldout_y_random s) \<subseteq> set (heldout_y_random sm)"
    unfolding st(4) by (rule set_delete_subset)
  then have 4: "set (heldout_y_random s) \<subseteq> set (heldout_y_random s0)" using IH by blast
  have 5: "best_observed_ei s ! 0 = Max (set (train_y_ei s0))"
          "best_random s ! 0 = Max (set (train_y_ei s0))"
    using IH unfolding st(5,6) by (simp_all add: nth_append)
  have 6: "train_inputs (model_ei s) = train_x_ei s" "train_targets (model_ei s) = train_y_ei s"
    by (subst st(7), simp add: initialize_model_fields)+
  show ?case using 1 2 3 4 5 6 by simp
qed


subsection \<open>The index partition\<close>











subsection \<open>The trials of an experiment\<close>

lemma run_trial_Inr:
  assumes "run_trial C E st trial = Inr st'"
  shows "\<exists>s0 s. trial_init E (features st) (labels st) (holdout_set_size C) (torch_rng st) trial
                  = Inr s0
           \<and> bo_loop E (N_ITERS C) s0 = Inr s
           \<and> features st' = features st \<and> labels st' = labels st
           \<and> best_observed_all_ei st' = best_observed_all_ei st @ [best_observed_ei s]
           \<and> best_random_all st' = best_random_all st @ [best_random s]
           \<and> torch_rng st' = rng s"
proof -
  let ?init = "trial_init E (features st) (labels st) (holdout_set_size C) (torch_rng st) trial"
  from assms obtain s0 where 1: "?init = Inr s0"
    by (cases ?init) (simp_all add: run_trial_def)
  from assms 1 obtain s where 2: "bo_loop E (N_ITERS C) s0 = Inr s"
    by (cases "bo_loop E (N_ITERS C) s0") (simp_all add: run_trial_def)
  from assms 1 2 have "st' =
      st\<lparr>best_observed_all_ei := best_observed_all_ei st @ [best_observed_ei s],
         best_random_all := best_random_all st @ [best_random s],
         torch_rng := rng s\<rparr>"
    by (simp add: run_trial_def)
  then show ?thesis using 1 2 by simp
qed

lemma trials_loop_Inr:
  assumes "trials_loop C E ts st = Inr st'"
  shows "features st' = features st \<and> labels st' = labels st
       \<and> (\<exists>fs. length fs = length ts
            \<and> best_observed_all_ei st' = best_observed_all_ei st @ map best_observed_ei fs
            \<and> best_random_all st' = best_random_all st @ map best_random fs
            \<and> (\<forall>k < length ts. \<exists>g s0.
                  trial_init E (features st) (labels st) (holdout_set_size C) g (ts ! k) = Inr s0
                \<and> bo_loop E (N_ITERS C) s0 = Inr (fs ! k)))"
  using assms
proof (induction ts arbitrary: st)
  case Nil
  then have "st' = st" by simp
  then show ?case by simp
next
  case (Cons t ts)
  from Cons.prems obtain st1 where t: "run_trial C E st t = Inr st1"
    and rest: "trials_loop C E ts st1 = Inr st'"
    by (cases "run_trial C E st t") simp_all
  from run_trial_Inr [OF t] obtain s0 s where
    a: "trial_init E (features st) (labels st) (holdout_set_size C) (torch_rng st) t = Inr s0"
       "bo_loop E (N_ITERS C) s0 = Inr s"
       "features st1 = features st" "labels st1 = labels st"
       "best_observed_all_ei st1 = best_observed_all_ei st @ [best_observed_ei s]"
       "best_random_all st1 = best_random_all st @ [best_random s]"
    by blast
  from Cons.IH [OF rest] obtain fs where
    b: "features st' = features st1" "labels st' = labels st1"
       "length fs = length ts"
       "best_observed_all_ei st' = best_observed_all_ei st1 @ map best_observed_ei fs"
       "best_random_all st' = best_random_all st1 @ map best_random fs"
       "\<forall>k < length ts. \<exists>g s0.
           trial_init E (features st1) (labels st1) (holdout_set_size C) g (ts ! k) = Inr s0
         \<and> bo_loop E (N_ITERS C) s0 = Inr (fs ! k)"
    by blast
  have all: "\<forall>k < length (t # ts). \<exists>g s0.
           trial_init E (features st) (labels st) (holdout_set_size C) g ((t # ts) ! k) = Inr s0
         \<and> bo_loop E (N_ITERS C) s0 = Inr ((s # fs) ! k)"
  proof (intro allI impI)
    fix k assume k: "k < length (t # ts)"
    show "\<exists>g s0.
           trial_init E (features st) (labels st) (holdout_set_size C) g ((t # ts) ! k) = Inr s0
         \<and> bo_loop E (N_ITERS C) s0 = Inr ((s # fs) ! k)"
    proof (cases k)
      case 0
      then show ?thesis using a(1,2) by auto
    next
      case (Suc k')
      then have "k' < length ts" using k by simp
      then show ?thesis using b(6) a(3,4) Suc by simp
    qed
  qed
  have "length (s # fs) = length (t # ts)" using b(3) by simp
  moreover have "best_observed_all_ei st' = best_observed_all_ei st @ map best_observed_ei (s # fs)"
    using a(5) b(4) by simp
  moreover have "best_random_all st' = best_random_all st @ map best_random (s # fs)"
    using a(6) b(5) by simp
  ultimately have "\<exists>fs. length fs = length (t # ts)
            \<and> best_observed_all_ei st' = best_observed_all_ei st @ map best_observed_ei fs
            \<and> best_random_all st' = best_random_all st @ map best_random fs
            \<and> (\<forall>k < length (t # ts). \<exists>g s0.
                  trial_init E (features st) (labels st) (holdout_set_size C) g ((t # ts) ! k) = Inr s0
                \<and> bo_loop E (N_ITERS C) s0 = Inr (fs ! k))"
    using all by blast
  then show ?case using a(3,4) b(1,2) by simp
qed

lemma run_experiment_Inr:
  assumes "run_experiment C E st = Inr st'"
  shows "features st' = features st \<and> labels st' = labels st
       \<and> (\<exists>fs. length fs = N_TRIALS C
            \<and> best_observed_all_ei st' = map best_observed_ei fs
            \<and> best_random_all st' = map best_random fs
            \<and> (\<forall>k < N_TRIALS C. \<exists>g s0.
                  trial_init E (features st) (labels st) (holdout_set_size C) g (k + 1) = Inr s0
                \<and> bo_loop E (N_ITERS C) s0 = Inr (fs ! k)))"
proof -
  define ts where "ts = [1..<N_TRIALS C + 1]"
  have len: "length ts = N_TRIALS C" unfolding ts_def by (simp only: length_upt add_diff_cancel_right')
  have nth: "ts ! k = k + 1" if "k < N_TRIALS C" for k
    unfolding ts_def using nth_upt [of 1 k "N_TRIALS C + 1"] that by simp
  let ?st = "st\<lparr>best_observed_all_ei := [], best_random_all := []\<rparr>"
  have "trials_loop C E ts ?st = Inr st'"
    using assms unfolding run_experiment_def ts_def .
  from trials_loop_Inr [OF this] obtain fs where
    f: "features st' = features ?st" "labels st' = labels ?st"
       "length fs = length ts"
       "best_observed_all_ei st' = best_observed_all_ei ?st @ map best_observed_ei fs"
       "best_random_all st' = best_random_all ?st @ map best_random fs"
       "\<forall>k < length ts. \<exists>g s0.
           trial_init E (features ?st) (labels ?st) (holdout_set_size C) g (ts ! k) = Inr s0
         \<and> bo_loop E (N_ITERS C) s0 = Inr (fs ! k)"
    by blast
  have "\<forall>k < N_TRIALS C. \<exists>g s0.
           trial_init E (features st) (labels st) (holdout_set_size C) g (k + 1) = Inr s0
         \<and> bo_loop E (N_ITERS C) s0 = Inr (fs ! k)"
  proof (intro allI impI)
    fix k assume k: "k < N_TRIALS C"
    then have "k < length ts" using len by simp
    with f(6) have "\<exists>g s0.
           trial_init E (features ?st) (labels ?st) (holdout_set_size C) g (ts ! k) = Inr s0
         \<and> bo_loop E (N_ITERS C) s0 = Inr (fs ! k)" by blast
    then show "\<exists>g s0.
           trial_init E (features st) (labels st) (holdout_set_size C) g (k + 1) = Inr s0
         \<and> bo_loop E (N_ITERS C) s0 = Inr (fs ! k)"
      using nth [OF k] by simp
  qed
  moreover have "length fs = N_TRIALS C" using f(3) len by simp
  moreover have "best_observed_all_ei st' = map best_observed_ei fs" using f(4) by simp
  moreover have "best_random_all st' = map best_random fs" using f(5) by simp
  moreover have "features st' = features st" "labels st' = labels st" using f(1,2) by simp_all
  ultimately show ?thesis by blast
qed

lemma experiment_traces:
  assumes "run_experiment C E st = Inr st'"
  shows "length (best_observed_all_ei st') = N_TRIALS C
       \<and> length (best_random_all st') = N_TRIALS C
       \<and> (\<forall>k < N_TRIALS C.
             length (best_observed_all_ei st' ! k) = N_ITERS C + 1
           \<and> length (best_random_all st' ! k) = N_ITERS C + 1
           \<and> best_observed_all_ei st' ! k ! 0 = best_random_all st' ! k ! 0
           \<and> (\<exists>train_x heldout_x train_y heldout_y.
                 train_test_split (shuffle E) (features st) (labels st) (holdout_set_size C) (k + 1)
                   = Inr (train_x, heldout_x, train_y, heldout_y)
               \<and> best_observed_all_ei st' ! k ! 0 = Max (set train_y)))"
proof -
  from run_experiment_Inr [OF assms] obtain fs where
    f: "length fs = N_TRIALS C"
       "best_observed_all_ei st' = map best_observed_ei fs"
       "best_random_all st' = map best_random fs"
       "\<forall>k < N_TRIALS C. \<exists>g s0.
           trial_init E (features st) (labels st) (holdout_set_size C) g (k + 1) = Inr s0
         \<and> bo_loop E (N_ITERS C) s0 = Inr (fs ! k)"
    by blast
  have per: "length (best_observed_all_ei st' ! k) = N_ITERS C + 1
           \<and> length (best_random_all st' ! k) = N_ITERS C + 1
           \<and> best_observed_all_ei st' ! k ! 0 = best_random_all st' ! k ! 0
           \<and> (\<exists>train_x heldout_x train_y heldout_y.
                 train_test_split (shuffle E) (features st) (labels st) (holdout_set_size C) (k + 1)
                   = Inr (train_x, heldout_x, train_y, heldout_y)
               \<and> best_observed_all_ei st' ! k ! 0 = Max (set train_y))"
    if k: "k < N_TRIALS C" for k
  proof -
    from f(4) k obtain g s0 where
      init: "trial_init E (features st) (labels st) (holdout_set_size C) g (k + 1) = Inr s0"
      and run: "bo_loop E (N_ITERS C) s0 = Inr (fs ! k)"
      by blast
    note inv = bo_loop_inv [OF init run]
    from trial_init_Inr [OF init] obtain train_x heldout_x train_y heldout_y where
      sp: "train_test_split (shuffle E) (features st) (labels st) (holdout_set_size C) (k + 1)
             = Inr (train_x, heldout_x, train_y, heldout_y)"
      and ty: "train_y_ei s0 = train_y"
      by blast
    have a: "best_observed_all_ei st' ! k = best_observed_ei (fs ! k)"
            "best_random_all st' ! k = best_random (fs ! k)"
      using f(1,2,3) k by simp_all
    have "best_observed_all_ei st' ! k ! 0 = Max (set train_y)"
      unfolding a using inv ty by simp
    with sp have "\<exists>train_x heldout_x train_y heldout_y.
                 train_test_split (shuffle E) (features st) (labels st) (holdout_set_size C) (k + 1)
                   = Inr (train_x, heldout_x, train_y, heldout_y)
               \<and> best_observed_all_ei st' ! k ! 0 = Max (set train_y)"
      by blast
    moreover have "length (best_observed_all_ei st' ! k) = N_ITERS C + 1"
      "length (best_random_all st' ! k) = N_ITERS C + 1"
      "best_observed_all_ei st' ! k ! 0 = best_random_all st' ! k ! 0"
      unfolding a using inv by simp_all
    ultimately show ?thesis by blast
  qed
  have "length (best_observed_all_ei st') = N_TRIALS C" "length (best_random_all st') = N_TRIALS C"
    using f(1,2,3) by simp_all
  then show ?thesis using per by blast
qed

subsection \<open>When a trial completes\<close>

text \<open>
  With a generator that draws permutations, a trial runs as many iterations as the
  initial pool has points, and the iteration after the last point fails with the
  error of \<^verbatim>\<open>torch.argmax\<close>.
\<close>

lemma bo_iteration_total:
  assumes "valid_randperm (randperm E)"
    and "train_y_ei s \<noteq> []" and "heldout_y_ei s \<noteq> []"
    and "length (heldout_y_ei s) \<le> length (heldout_x_ei s)"
    and "heldout_y_random s \<noteq> []"
    and "best_observed_ei s \<noteq> []" and "best_random s \<noteq> []"
  shows "\<exists>s'. bo_iteration E s = Inr s'"
proof -
  let ?m = "fit_gpytorch_model (optimiser E) (model_ei s)"
  have 1: "torch_max (train_y_ei s) = Inr (Max (set (train_y_ei s)))"
    using assms(2) by (simp add: torch_max_def)
  let ?acq = "expected_improvement E ?m (Max (set (train_y_ei s)))"
  from optimize_total [OF assms(3,4), of ?acq] obtain r where
    2: "optimize_acqf_and_get_observation ?acq (heldout_x_ei s) (heldout_y_ei s) = Inr r"
    by blast
  obtain nx no hx hy where r: "r = (nx, no, hx, hy)" by (cases r)
  from update_random_total [OF assms(1,5,7)] obtain q where
    3: "update_random_observations (randperm E) (rng s) (best_random s)
          (heldout_x_random s) (heldout_y_random s) = Inr q"
    by blast
  obtain br hxr hyr g' where q: "q = (br, hxr, hyr, g')" by (cases q)
  have 4: "getitem_last (best_observed_ei s) = Inr (last (best_observed_ei s))"
    using assms(6) by (simp add: getitem_last_def)
  have "bo_iteration E s =
      Inr \<lparr>train_x_ei = train_x_ei s @ nx, train_y_ei = train_y_ei s @ no,
        heldout_x_ei = hx, heldout_y_ei = hy,
        heldout_x_random = hxr, heldout_y_random = hyr,
        best_observed_ei = best_observed_ei s @ map (\<lambda>v. max v (last (best_observed_ei s))) no,
        best_random = br,
        model_ei = initialize_model (defaults E) (train_x_ei s @ nx) (train_y_ei s @ no)
                     (Some (state_dict ?m)),
        rng = g'\<rparr>"
    using 1 2 3 4 unfolding r q by (simp add: bo_iteration_def Let_def)
  then show ?thesis by blast
qed

lemma bo_iteration_empty_pool:
  assumes "train_y_ei s \<noteq> []" and "heldout_y_ei s = []"
  shows "bo_iteration E s = Inl EmptyReductionError"
  using assms by (simp add: bo_iteration_def Let_def torch_max_def optimize_empty)

lemma train_test_split_lengths:
  assumes "train_test_split sh X y h seed = Inr (train_x, heldout_x, train_y, heldout_y)"
  shows "length train_x = length train_y \<and> length heldout_x = length heldout_y"
  using assms by (auto simp: train_test_split_def Let_def split: if_splits)

lemma bo_loop_pool_sizes:
  assumes init: "trial_init E X y h g trial = Inr s0"
    and run: "bo_loop E n s0 = Inr s"
  shows "length (heldout_x_ei s) = length (heldout_y_ei s)
       \<and> length (heldout_x_random s) = length (heldout_y_random s)
       \<and> length (heldout_y_ei s) + n = length (heldout_y_ei s0)
       \<and> length (heldout_y_random s) + n = length (heldout_y_ei s0)"
  using run
proof (induction n arbitrary: s)
  case 0
  then have "s = s0" by simp
  moreover from trial_init_Inr [OF init] obtain train_x heldout_x train_y heldout_y where
    "train_test_split (shuffle E) X y h trial = Inr (train_x, heldout_x, train_y, heldout_y)"
    "heldout_x_ei s0 = heldout_x" "heldout_y_ei s0 = heldout_y"
    "heldout_x_random s0 = heldout_x" "heldout_y_random s0 = heldout_y"
    by blast
  ultimately show ?case using train_test_split_lengths by fastforce
next
  case (Suc n)
  from Suc.prems obtain sm where sm: "bo_loop E n s0 = Inr sm" and it: "bo_iteration E sm = Inr s"
    unfolding bo_loop_Suc_right by blast
  note IH = Suc.IH [OF sm]
  from bo_iteration_Inr [OF it] obtain b c where
    st: "b < length (heldout_x_ei sm)" "b < length (heldout_y_ei sm)"
        "c < length (heldout_y_random sm)"
        "heldout_x_ei s = take b (heldout_x_ei sm) @ drop (Suc b) (heldout_x_ei sm)"
        "heldout_y_ei s = take b (heldout_y_ei sm) @ drop (Suc b) (heldout_y_ei sm)"
        "heldout_x_random s = take c (heldout_x_random sm) @ drop (Suc c) (heldout_x_random sm)"
        "heldout_y_random s = take c (heldout_y_random sm) @ drop (Suc c) (heldout_y_random sm)"
    by blast
  have c': "c < length (heldout_x_random sm)" using st(3) IH by simp
  have l: "length (heldout_x_ei s) = length (heldout_x_ei sm) - 1"
          "length (heldout_y_ei s) = length (heldout_y_ei sm) - 1"
          "length (heldout_x_random s) = length (heldout_x_random sm) - 1"
          "length (heldout_y_random s) = length (heldout_y_random sm) - 1"
    unfolding st(4-7) using st(1,2,3) c' by simp_all
  have "length (heldout_x_ei s) = length (heldout_y_ei s)"
    unfolding l using IH by simp
  moreover have "length (heldout_x_random s) = length (heldout_y_random s)"
    unfolding l using IH by simp
  moreover have "length (heldout_y_ei s) + Suc n = length (heldout_y_ei s0)"
    unfolding l using IH st(2) by arith
  moreover have "length (heldout_y_random s) + Suc n = length (heldout_y_ei s0)"
    unfolding l using IH st(3) by arith
  ultimately show ?case by blast
qed

lemma bo_loop_total:
  assumes rp: "valid_randperm (randperm E)"
    and init: "trial_init E X y h g trial = Inr s0"
    and n: "n \<le> length (heldout_y_ei s0)"
  shows "\<exists>s. bo_loop E n s0 = Inr s"
  using n
proof (induction n)
  case 0
  show ?case by simp
next
  case (Suc n)
  then obtain sm where sm: "bo_loop E n s0 = Inr sm" by auto
  note inv = bo_loop_inv [OF init sm]
  note sz = bo_loop_pool_sizes [OF init sm]
  have ne: "heldout_y_ei sm \<noteq> []" "heldout_y_random sm \<noteq> []"
    using sz Suc.prems by auto
  have tr: "best_observed_ei sm \<noteq> []" "best_random sm \<noteq> []" "train_y_ei sm \<noteq> []"
    using inv by auto
  have le: "length (heldout_y_ei sm) \<le> length (heldout_x_ei sm)" using sz by simp
  from bo_iteration_total [OF rp tr(3) ne(1) le ne(2) tr(1,2)] obtain s where
    "bo_iteration E sm = Inr s" by blast
  then have "bo_loop E (Suc n) s0 = Inr s" using sm unfolding bo_loop_Suc_right by blast
  then show ?case by blast
qed

lemma bo_loop_Suc_fail:
  assumes "bo_loop E n s0 = Inr s" and "bo_iteration E s = Inl e"
  shows "bo_loop E (Suc n) s0 = Inl e"
  using assms
proof (induction n arbitrary: s0)
  case 0
  then show ?case by simp
next
  case (Suc n)
  from Suc.prems(1) obtain s1 where s1: "bo_iteration E s0 = Inr s1"
    by (cases "bo_iteration E s0") simp_all
  then have "bo_loop E n s1 = Inr s" using Suc.prems(1) by simp
  from Suc.IH [OF this Suc.prems(2)] show ?case using s1 by simp
qed

lemma bo_loop_exhausted:
  assumes rp: "valid_randperm (randperm E)"
    and init: "trial_init E X y h g trial = Inr s0"
  shows "bo_loop E (Suc (length (heldout_y_ei s0))) s0 = Inl EmptyReductionError"
proof -
  from bo_loop_total [OF rp init le_refl] obtain s where
    s: "bo_loop E (length (heldout_y_ei s0)) s0 = Inr s" by blast
  have "heldout_y_ei s = []" using bo_loop_pool_sizes [OF init s] by simp
  moreover have "train_y_ei s \<noteq> []" using bo_loop_inv [OF init s] by simp
  ultimately have "bo_iteration E s = Inl EmptyReductionError" by (rule bo_iteration_empty_pool [rotated])
  with s show ?thesis by (rule bo_loop_Suc_fail)
qed

subsection \<open>The store: what a run writes\<close>

lemma bnd_InrE:
  assumes "bnd m f = Inr r"
  obtains v where "m = Inr v" and "f v = Inr r"
  using assms by (cases m) (simp_all add: bnd_def)

lemma raises_Inr: "raises m = Inr v \<longleftrightarrow> m = Inr v"
  by (cases m) (simp_all add: raises_def)

lemma keeps_refl: "keeps S H H"
  by (simp add: keeps_def)

lemma keeps_step:
  assumes "keeps S H H1" and "keeps S' H1 H2"
    and "\<And>a. a \<in> S' \<Longrightarrow> a < length H \<Longrightarrow> a \<in> S"
  shows "keeps S H H2"
  unfolding keeps_def
proof (intro conjI allI impI)
  show "length H \<le> length H2" using assms(1,2) by (simp add: keeps_def)
next
  fix a assume a: "a < length H" "a \<notin> S"
  then have "a \<notin> S'" using assms(3) by blast
  moreover have "a < length H1" using a(1) assms(1) by (simp add: keeps_def)
  ultimately have "H2 ! a = H1 ! a" using assms(2) by (simp add: keeps_def)
  moreover have "H1 ! a = H ! a" using assms(1) a by (simp add: keeps_def)
  ultimately show "H2 ! a = H ! a" by simp
qed

lemma keeps_append: "keeps S H (H @ cells)"
  by (simp add: keeps_def nth_append)

lemma keeps_update_append:
  assumes "a \<in> S"
  shows "keeps S H (H[a := c] @ cells)"
  unfolding keeps_def
proof (intro conjI allI impI)
  show "length H \<le> length (H[a := c] @ cells)" by simp
next
  fix b assume b: "b < length H" "b \<notin> S"
  then have "b \<noteq> a" using assms by blast
  then show "(H[a := c] @ cells) ! b = H ! b" using b(1) by (simp add: nth_append)
qed

lemma keeps_update: "a \<in> S \<Longrightarrow> keeps S H (H[a := c])"
  using keeps_update_append [of a S H c "[]"] by simp

lemma st_copy_keeps:
  assumes "st_copy H a = Inr (b, H')"
  shows "keeps {} H H' \<and> b = length H \<and> length H' = Suc (length H)"
  using assms by (auto simp: st_copy_def keeps_def nth_append split: if_splits)

lemma st_append_keeps:
  assumes "st_append H a v = Inr H'"
  shows "keeps {a} H H' \<and> length H' = length H"
  using assms by (auto simp: st_append_def keeps_def elim!: bnd_InrE)

lemma st_append_ref_keeps:
  assumes "st_append_ref H a r = Inr H'"
  shows "keeps {a} H H' \<and> length H' = length H"
  using assms by (auto simp: st_append_ref_def keeps_def elim!: bnd_InrE)

lemma st_train_test_split_keeps:
  assumes "st_train_test_split sh aX ay ts seed H = Inr ((a1, a2, a3, a4), H')"
  shows "keeps {} H H' \<and> length H' = length H + 4
       \<and> a1 = length H \<and> a2 = length H + 1 \<and> a3 = length H + 2 \<and> a4 = length H + 3"
  using assms
  by (auto simp: st_train_test_split_def keeps_def nth_append elim!: bnd_InrE)

lemma st_initialize_model_keeps:
  assumes "st_initialize_model d ax ay sd H = (m, H')"
  shows "keeps {} H H' \<and> m = length H \<and> length H' = Suc (length H)"
  using assms
  by (cases sd) (auto simp: st_initialize_model_def Let_def keeps_def nth_append)

lemma st_fit_keeps:
  assumes "st_fit_gpytorch_model opt m H = Inr H'"
  shows "keeps {m} H H' \<and> length H' = length H"
  using assms by (auto simp: st_fit_gpytorch_model_def keeps_def elim!: bnd_InrE)

lemma st_optimize_keeps:
  assumes "st_optimize_acqf_and_get_observation acq ai ao H = Inr ((a1, a2, a3, a4), H')"
  shows "keeps {} H H' \<and> length H' = length H + 4
       \<and> a1 = length H \<and> a2 = length H + 1 \<and> a3 = length H + 2 \<and> a4 = length H + 3"
  using assms
  by (auto simp: st_optimize_acqf_and_get_observation_def keeps_def nth_append elim!: bnd_InrE)

lemma st_update_random_keeps:
  assumes "st_update_random_observations rp g ab ai ao H = Inr ((b, a1, a2, g'), H')"
  shows "keeps {ab} H H' \<and> length H' = length H + 2 \<and> b = ab
       \<and> a1 = length H \<and> a2 = length H + 1"
  using assms
  by (auto simp: st_update_random_observations_def keeps_def nth_append elim!: bnd_InrE)

lemma keeps_sub_trans:
  assumes "keeps S A B" and "keeps S' B C" and "S' \<subseteq> S"
  shows "keeps S A C"
  using assms(1,2) by (rule keeps_step) (use assms(3) in blast)

lemma keeps_fresh_trans:
  assumes "keeps S A B" and "keeps S' B C" and "\<And>a. a \<in> S' \<Longrightarrow> a \<in> S \<or> length A \<le> a"
  shows "keeps S A C"
  using assms(1,2)
proof (rule keeps_step)
  fix a assume "a \<in> S'" "a < length A"
  then show "a \<in> S" using assms(3) [of a] by auto
qed

lemma keeps_length: "keeps S A B \<Longrightarrow> length A \<le> length B"
  by (simp add: keeps_def)

lemma st_trial_init_Inr:
  assumes "st_trial_init E aX ay h g trial H = Inr (v, H')"
  obtains tx hx ty hy H1 tx1 H2 tx2 H3 hx1 H4 hx2 H5 ty1 H6 hy1 H7 model H8 H9 best where
    "st_train_test_split (shuffle E) aX ay h trial (H @ [PyList [], PyList []])
       = Inr ((tx, hx, ty, hy), H1)"
    "st_copy H1 tx = Inr (tx1, H2)" "st_copy H2 tx1 = Inr (tx2, H3)"
    "st_copy H3 hx = Inr (hx1, H4)" "st_copy H4 hx1 = Inr (hx2, H5)"
    "st_copy H5 ty = Inr (ty1, H6)" "st_copy H6 hy = Inr (hy1, H7)"
    "st_initialize_model (defaults E) tx2 ty1 None H7 = (model, H8)"
    "st_append H8 (length H) best = Inr H9"
    "st_append H9 (length H + 1) best = Inr H'"
    "v = \<lparr>train_x_at = tx2, train_y_at = ty1,
           heldout_x_at = hx2, heldout_y_at = hy1,
           heldout_x_random_at = hx2, heldout_y_random_at = hy1,
           best_observed_at = length H, best_random_at = length H + 1,
           model_at = model, rng_now = g\<rparr>"
  using assms unfolding st_trial_init_def Let_def
  by (auto elim!: bnd_InrE split: prod.splits)

lemma st_trial_init_keeps:
  assumes "st_trial_init E aX ay h g trial H = Inr (v, H')"
  shows "keeps {} H H' \<and> best_observed_at v = length H \<and> best_random_at v = length H + 1
       \<and> length H \<le> model_at v"
proof -
  from assms obtain tx hx ty hy H1 tx1 H2 tx2 H3 hx1 H4 hx2 H5 ty1 H6 hy1 H7 model H8 H9 best
    where s:
    "st_train_test_split (shuffle E) aX ay h trial (H @ [PyList [], PyList []])
       = Inr ((tx, hx, ty, hy), H1)"
    "st_copy H1 tx = Inr (tx1, H2)" "st_copy H2 tx1 = Inr (tx2, H3)"
    "st_copy H3 hx = Inr (hx1, H4)" "st_copy H4 hx1 = Inr (hx2, H5)"
    "st_copy H5 ty = Inr (ty1, H6)" "st_copy H6 hy = Inr (hy1, H7)"
    "st_initialize_model (defaults E) tx2 ty1 None H7 = (model, H8)"
    "st_append H8 (length H) best = Inr H9"
    "st_append H9 (length H + 1) best = Inr H'"
    and v: "v = \<lparr>train_x_at = tx2, train_y_at = ty1,
           heldout_x_at = hx2, heldout_y_at = hy1,
           heldout_x_random_at = hx2, heldout_y_random_at = hy1,
           best_observed_at = length H, best_random_at = length H + 1,
           model_at = model, rng_now = g\<rparr>"
    by (rule st_trial_init_Inr)
  have k0: "keeps {} H (H @ [PyList [], PyList []])" by (rule keeps_append)
  have k1: "keeps {} H H1"
    using k0 st_train_test_split_keeps [OF s(1)] by (blast intro: keeps_sub_trans)
  have k2: "keeps {} H H2" using k1 st_copy_keeps [OF s(2)] by (blast intro: keeps_sub_trans)
  have k3: "keeps {} H H3" using k2 st_copy_keeps [OF s(3)] by (blast intro: keeps_sub_trans)
  have k4: "keeps {} H H4" using k3 st_copy_keeps [OF s(4)] by (blast intro: keeps_sub_trans)
  have k5: "keeps {} H H5" using k4 st_copy_keeps [OF s(5)] by (blast intro: keeps_sub_trans)
  have k6: "keeps {} H H6" using k5 st_copy_keeps [OF s(6)] by (blast intro: keeps_sub_trans)
  have k7: "keeps {} H H7" using k6 st_copy_keeps [OF s(7)] by (blast intro: keeps_sub_trans)
  have k8: "keeps {} H H8"
    using k7 st_initialize_model_keeps [OF s(8)] by (blast intro: keeps_sub_trans)
  have m: "length H \<le> model"
    using st_initialize_model_keeps [OF s(8)] keeps_length [OF k7] by simp
  have a9: "keeps {length H} H8 H9" using st_append_keeps [OF s(9)] by simp
  have k9: "keeps {} H H9" using k8 a9 by (rule keeps_fresh_trans) simp
  have a10: "keeps {length H + 1} H9 H'" using st_append_keeps [OF s(10)] by simp
  have k10: "keeps {} H H'" using k9 a10 by (rule keeps_fresh_trans) simp
  show ?thesis using k10 m by (simp add: v)
qed

lemma st_bo_iteration_Inr:
  assumes "st_bo_iteration E v H = Inr (v', H')"
  obtains H1 fitted train_y best_f new_x new_obj hx hy H2 train_x new_x_ei new_obj_ei
    br hxr hyr g' H4 best_observed prev model where
    "st_fit_gpytorch_model (optimiser E) (model_at v) H = Inr H1"
    "get_gp H1 (model_at v) = Inr fitted"
    "get_vals H1 (train_y_at v) = Inr train_y"
    "torch_max train_y = Inr best_f"
    "st_optimize_acqf_and_get_observation (expected_improvement E fitted best_f)
       (heldout_x_at v) (heldout_y_at v) H1 = Inr ((new_x, new_obj, hx, hy), H2)"
    "get_rows H2 (train_x_at v) = Inr train_x"
    "get_rows H2 new_x = Inr new_x_ei"
    "get_vals H2 new_obj = Inr new_obj_ei"
    "st_update_random_observations (randperm E) (rng_now v) (best_random_at v)
       (heldout_x_random_at v) (heldout_y_random_at v)
       (H2 @ [Rows (train_x @ new_x_ei), Vals (train_y @ new_obj_ei)])
       = Inr ((br, hxr, hyr, g'), H4)"
    "get_list H4 (best_observed_at v) = Inr best_observed"
    "getitem_last best_observed = Inr prev"
    "st_initialize_model (defaults E) (length H2) (length H2 + 1) (Some (state_dict fitted))
       (H4[best_observed_at v := PyList (best_observed @ map (\<lambda>v. max v prev) new_obj_ei)])
       = (model, H')"
    "v' = \<lparr>train_x_at = length H2, train_y_at = length H2 + 1,
            heldout_x_at = hx, heldout_y_at = hy,
            heldout_x_random_at = hxr, heldout_y_random_at = hyr,
            best_observed_at = best_observed_at v, best_random_at = br,
            model_at = model, rng_now = g'\<rparr>"
  using assms unfolding st_bo_iteration_def Let_def
  by (auto elim!: bnd_InrE simp: raises_Inr split: prod.splits)

lemma st_bo_iteration_keeps:
  assumes "st_bo_iteration E v H = Inr (v', H')"
  shows "keeps {best_observed_at v, best_random_at v, model_at v} H H'
       \<and> best_observed_at v' = best_observed_at v \<and> best_random_at v' = best_random_at v
       \<and> length H \<le> model_at v'"
proof -
  let ?S = "{best_observed_at v, best_random_at v, model_at v}"
  from assms obtain H1 fitted train_y best_f new_x new_obj hx hy H2 train_x new_x_ei new_obj_ei
    br hxr hyr g' H4 best_observed prev model where s:
    "st_fit_gpytorch_model (optimiser E) (model_at v) H = Inr H1"
    "st_optimize_acqf_and_get_observation (expected_improvement E fitted best_f)
       (heldout_x_at v) (heldout_y_at v) H1 = Inr ((new_x, new_obj, hx, hy), H2)"
    "st_update_random_observations (randperm E) (rng_now v) (best_random_at v)
       (heldout_x_random_at v) (heldout_y_random_at v)
       (H2 @ [Rows (train_x @ new_x_ei), Vals (train_y @ new_obj_ei)])
       = Inr ((br, hxr, hyr, g'), H4)"
    "st_initialize_model (defaults E) (length H2) (length H2 + 1) (Some (state_dict fitted))
       (H4[best_observed_at v := PyList (best_observed @ map (\<lambda>v. max v prev) new_obj_ei)])
       = (model, H')"
    and v': "v' = \<lparr>train_x_at = length H2, train_y_at = length H2 + 1,
            heldout_x_at = hx, heldout_y_at = hy,
            heldout_x_random_at = hxr, heldout_y_random_at = hyr,
            best_observed_at = best_observed_at v, best_random_at = br,
            model_at = model, rng_now = g'\<rparr>"
    by (rule st_bo_iteration_Inr)
  let ?H3 = "H2 @ [Rows (train_x @ new_x_ei), Vals (train_y @ new_obj_ei)]"
  let ?H5 = "H4[best_observed_at v := PyList (best_observed @ map (\<lambda>v. max v prev) new_obj_ei)]"
  have k1: "keeps ?S H H1"
    using keeps_refl [of ?S H] st_fit_keeps [OF s(1)] by (blast intro: keeps_sub_trans)
  have k2: "keeps ?S H H2"
    using k1 st_optimize_keeps [OF s(2)] by (blast intro: keeps_sub_trans)
  have k3: "keeps ?S H ?H3"
    using k2 keeps_append [of "{}" H2] by (blast intro: keeps_sub_trans)
  have br: "br = best_random_at v" using st_update_random_keeps [OF s(3)] by simp
  have k4: "keeps ?S H H4"
    using k3 st_update_random_keeps [OF s(3)] by (blast intro: keeps_sub_trans)
  have "keeps {best_observed_at v} H4 ?H5" by (rule keeps_update) simp
  then have k5: "keeps ?S H ?H5" using k4 by (blast intro: keeps_sub_trans)
  have k6: "keeps ?S H H'"
    using k5 st_initialize_model_keeps [OF s(4)] by (blast intro: keeps_sub_trans)
  have "model = length ?H5" using st_initialize_model_keeps [OF s(4)] by simp
  then have m: "length H \<le> model" using keeps_length [OF k5] by simp
  show ?thesis using k6 br m by (simp add: v')
qed

lemma st_bo_loop_keeps:
  assumes "st_bo_loop E n v H = Inr (v', H')"
  shows "keeps {best_observed_at v, best_random_at v, model_at v} H H'
       \<and> best_observed_at v' = best_observed_at v \<and> best_random_at v' = best_random_at v"
  using assms
proof (induction n arbitrary: v H)
  case 0
  then show ?case by (simp add: keeps_refl)
next
  case (Suc n)
  from Suc.prems obtain r where r: "st_bo_iteration E v H = Inr r"
    and rest: "(case r of (v1, H1) \<Rightarrow> st_bo_loop E n v1 H1) = Inr (v', H')"
    by (auto elim!: bnd_InrE)
  obtain v1 H1 where r1: "r = (v1, H1)" by (cases r)
  have it: "st_bo_iteration E v H = Inr (v1, H1)" using r r1 by simp
  have lp: "st_bo_loop E n v1 H1 = Inr (v', H')" using rest r1 by simp
  note a = st_bo_iteration_keeps [OF it]
  note b = Suc.IH [OF lp]
  have "keeps {best_observed_at v, best_random_at v, model_at v} H H'"
  proof (rule keeps_fresh_trans)
    show "keeps {best_observed_at v, best_random_at v, model_at v} H H1" using a by simp
    show "keeps {best_observed_at v1, best_random_at v1, model_at v1} H1 H'" using b by simp
    fix c assume "c \<in> {best_observed_at v1, best_random_at v1, model_at v1}"
    then show "c \<in> {best_observed_at v, best_random_at v, model_at v} \<or> length H \<le> c"
      using a by auto
  qed
  then show ?case using a b by simp
qed

lemma st_run_trial_keeps:
  assumes "st_run_trial C E nb trial H = Inr (nb', H')"
  shows "keeps {best_observed_all_at nb, best_random_all_at nb} H H'
       \<and> features_at nb' = features_at nb \<and> labels_at nb' = labels_at nb
       \<and> best_observed_all_at nb' = best_observed_all_at nb
       \<and> best_random_all_at nb' = best_random_all_at nb"
proof -
  let ?S = "{best_observed_all_at nb, best_random_all_at nb}"
  from assms obtain v0 H1 v H2 H3 where s:
    "st_trial_init E (features_at nb) (labels_at nb) (holdout_set_size C)
       (torch_rng_now nb) trial H = Inr (v0, H1)"
    "st_bo_loop E (N_ITERS C) v0 H1 = Inr (v, H2)"
    "st_append_ref H2 (best_observed_all_at nb) (best_observed_at v) = Inr H3"
    "st_append_ref H3 (best_random_all_at nb) (best_random_at v) = Inr H'"
    and nb': "nb' = nb\<lparr>torch_rng_now := rng_now v\<rparr>"
    unfolding st_run_trial_def by (auto elim!: bnd_InrE split: prod.splits)
  note i = st_trial_init_keeps [OF s(1)]
  note l = st_bo_loop_keeps [OF s(2)]
  have k1: "keeps {} H H1" using i by simp
  have k2: "keeps {} H H2"
  proof (rule keeps_fresh_trans [OF k1])
    show "keeps {best_observed_at v0, best_random_at v0, model_at v0} H1 H2" using l by simp
    fix c assume "c \<in> {best_observed_at v0, best_random_at v0, model_at v0}"
    then show "c \<in> {} \<or> length H \<le> c" using i by auto
  qed
  have k2': "keeps ?S H H2" using keeps_refl [of ?S H] k2 by (blast intro: keeps_sub_trans)
  have k3: "keeps ?S H H3"
    using k2' st_append_ref_keeps [OF s(3)] by (blast intro: keeps_sub_trans)
  have k4: "keeps ?S H H'"
    using k3 st_append_ref_keeps [OF s(4)] by (blast intro: keeps_sub_trans)
  show ?thesis using k4 by (simp add: nb')
qed

lemma st_trials_loop_keeps:
  assumes "st_trials_loop C E ts nb H = Inr (nb', H')"
  shows "keeps {best_observed_all_at nb, best_random_all_at nb} H H'
       \<and> features_at nb' = features_at nb \<and> labels_at nb' = labels_at nb
       \<and> best_observed_all_at nb' = best_observed_all_at nb
       \<and> best_random_all_at nb' = best_random_all_at nb"
  using assms
proof (induction ts arbitrary: nb H)
  case Nil
  then show ?case by (simp add: keeps_refl)
next
  case (Cons t ts)
  from Cons.prems obtain r where r: "st_run_trial C E nb t H = Inr r"
    and rest: "(case r of (nb1, H1) \<Rightarrow> st_trials_loop C E ts nb1 H1) = Inr (nb', H')"
    by (auto elim!: bnd_InrE)
  obtain nb1 H1 where r1: "r = (nb1, H1)" by (cases r)
  have t: "st_run_trial C E nb t H = Inr (nb1, H1)" using r r1 by simp
  have lp: "st_trials_loop C E ts nb1 H1 = Inr (nb', H')" using rest r1 by simp
  note a = st_run_trial_keeps [OF t]
  note b = Cons.IH [OF lp]
  have "keeps {best_observed_all_at nb, best_random_all_at nb} H H'"
  proof (rule keeps_sub_trans)
    show "keeps {best_observed_all_at nb, best_random_all_at nb} H H1" using a by simp
    show "keeps {best_observed_all_at nb1, best_random_all_at nb1} H1 H'" using b by simp
    show "{best_observed_all_at nb1, best_random_all_at nb1}
            \<subseteq> {best_observed_all_at nb, best_random_all_at nb}"
      using a by simp
  qed
  then show ?case using a b by simp
qed

lemma st_run_experiment_keeps:
  assumes "st_run_experiment C E aX ay g H = Inr (nb, H')"
  shows "keeps {} H H' \<and> features_at nb = aX \<and> labels_at nb = ay"
proof -
  let ?nb = "\<lparr>features_at = aX, labels_at = ay,
        best_observed_all_at = length H, best_random_all_at = length H + 1,
        torch_rng_now = g\<rparr>"
  define ts where "ts = [1..<N_TRIALS C + 1]"
  have "st_trials_loop C E ts ?nb (H @ [RefList [], RefList []]) = Inr (nb, H')"
    using assms unfolding st_run_experiment_def ts_def .
  note l = st_trials_loop_keeps [OF this]
  have "keeps {} H H'"
  proof (rule keeps_fresh_trans [OF keeps_append])
    show "keeps {best_observed_all_at ?nb, best_random_all_at ?nb}
            (H @ [RefList [], RefList []]) H'"
      using l by simp
    fix c assume "c \<in> {best_observed_all_at ?nb, best_random_all_at ?nb}"
    then show "c \<in> {} \<or> length H \<le> c" by auto
  qed
  then show ?thesis using l by simp
qed

subsection \<open>The store: the run agrees with the state-passing run\<close>

lemma get_rows_iff: "get_rows H a = Inr xs \<longleftrightarrow> a < length H \<and> H ! a = Rows xs"
  by (auto simp: get_rows_def split: obj.splits)

lemma get_vals_iff: "get_vals H a = Inr ys \<longleftrightarrow> a < length H \<and> H ! a = Vals ys"
  by (auto simp: get_vals_def split: obj.splits)

lemma get_list_iff: "get_list H a = Inr vs \<longleftrightarrow> a < length H \<and> H ! a = PyList vs"
  by (auto simp: get_list_def split: obj.splits)

lemma get_reflist_iff: "get_reflist H a = Inr rs \<longleftrightarrow> a < length H \<and> H ! a = RefList rs"
  by (auto simp: get_reflist_def split: obj.splits)

lemma get_model_iff:
  "get_model H a = Inr (ax, ay, sd) \<longleftrightarrow> a < length H \<and> H ! a = Model ax ay sd"
  by (auto simp: get_model_def split: obj.splits)

lemma get_gp_iff:
  "get_gp H a = Inr m \<longleftrightarrow>
     (\<exists>ax ay. a < length H \<and> H ! a = Model ax ay (state_dict m)
        \<and> ax < length H \<and> H ! ax = Rows (train_inputs m)
        \<and> ay < length H \<and> H ! ay = Vals (train_targets m))"
proof
  assume "get_gp H a = Inr m"
  then obtain ax ay sd xs ys where
    "get_model H a = Inr (ax, ay, sd)" "get_rows H ax = Inr xs" "get_vals H ay = Inr ys"
    "m = \<lparr>train_inputs = xs, train_targets = ys, state_dict = sd\<rparr>"
    unfolding get_gp_def by (auto elim!: bnd_InrE split: prod.splits)
  then show "\<exists>ax ay. a < length H \<and> H ! a = Model ax ay (state_dict m)
        \<and> ax < length H \<and> H ! ax = Rows (train_inputs m)
        \<and> ay < length H \<and> H ! ay = Vals (train_targets m)"
    by (auto simp: get_model_iff get_rows_iff get_vals_iff)
next
  assume "\<exists>ax ay. a < length H \<and> H ! a = Model ax ay (state_dict m)
        \<and> ax < length H \<and> H ! ax = Rows (train_inputs m)
        \<and> ay < length H \<and> H ! ay = Vals (train_targets m)"
  then obtain ax ay where
    "get_model H a = Inr (ax, ay, state_dict m)" "get_rows H ax = Inr (train_inputs m)"
    "get_vals H ay = Inr (train_targets m)"
    by (auto simp: get_model_iff get_rows_iff get_vals_iff)
  then show "get_gp H a = Inr m" by (simp add: get_gp_def bnd_def)
qed

lemma keeps_get:
  assumes "keeps S H H'" and "a \<notin> S"
  shows "get_rows H a = Inr xs \<Longrightarrow> get_rows H' a = Inr xs"
    and "get_vals H a = Inr ys \<Longrightarrow> get_vals H' a = Inr ys"
    and "get_list H a = Inr vs \<Longrightarrow> get_list H' a = Inr vs"
    and "get_reflist H a = Inr rs \<Longrightarrow> get_reflist H' a = Inr rs"
  using assms
  by (auto simp: keeps_def get_rows_iff get_vals_iff get_list_iff get_reflist_iff)

lemma st_fit_gp:
  assumes "st_fit_gpytorch_model opt a H = Inr H1" and "get_gp H a = Inr m"
  shows "get_gp H1 a = Inr (fit_gpytorch_model opt m)"
proof -
  from assms(2) obtain ax ay where
    m: "a < length H" "H ! a = Model ax ay (state_dict m)"
       "ax < length H" "H ! ax = Rows (train_inputs m)"
       "ay < length H" "H ! ay = Vals (train_targets m)"
    unfolding get_gp_iff by blast
  have ne: "ax \<noteq> a" "ay \<noteq> a" using m by auto
  have H1: "H1 = H[a := Model ax ay (opt (state_dict m) (train_inputs m) (train_targets m))]"
    using assms(1) m
    by (simp add: st_fit_gpytorch_model_def bnd_def get_model_def get_rows_def get_vals_def)
  show ?thesis
    unfolding get_gp_iff H1 using m ne
    by (intro exI [of _ ax] exI [of _ ay]) (simp add: fit_gpytorch_model_def)
qed

lemma st_optimize_Inr:
  assumes "st_optimize_acqf_and_get_observation acq ai ao H = Inr ((a1, a2, a3, a4), H')"
    and "get_rows H ai = Inr xs" and "get_vals H ao = Inr ys"
  shows "\<exists>nx no hx hy.
           optimize_acqf_and_get_observation acq xs ys = Inr (nx, no, hx, hy)
         \<and> H' = H @ [Rows nx, Vals no, Rows hx, Vals hy]
         \<and> a1 = length H \<and> a2 = length H + 1 \<and> a3 = length H + 2 \<and> a4 = length H + 3"
  using assms
  by (auto simp: st_optimize_acqf_and_get_observation_def raises_Inr elim!: bnd_InrE)

lemma st_update_random_Inr:
  assumes "st_update_random_observations rp g ab ai ao H = Inr ((b, a1, a2, g'), H')"
    and "get_list H ab = Inr br" and "get_rows H ai = Inr xs" and "get_vals H ao = Inr ys"
  shows "\<exists>br' hx hy.
           update_random_observations rp g br xs ys = Inr (br', hx, hy, g')
         \<and> H' = H[ab := PyList br'] @ [Rows hx, Vals hy]
         \<and> b = ab \<and> a1 = length H \<and> a2 = length H + 1"
  using assms
  by (auto simp: st_update_random_observations_def raises_Inr elim!: bnd_InrE)

lemma st_initialize_model_gp:
  assumes "st_initialize_model d ax ay sd H = (m, H')"
    and "get_rows H ax = Inr xs" and "get_vals H ay = Inr ys"
  shows "get_gp H' m = Inr (initialize_model d xs ys sd)"
proof -
  have ax: "ax < length H" "H ! ax = Rows xs" and ay: "ay < length H" "H ! ay = Vals ys"
    using assms(2,3) by (simp_all add: get_rows_iff get_vals_iff)
  show ?thesis
  proof (cases sd)
    case None
    then have "m = length H" "H' = H @ [Model ax ay d]"
      using assms(1) by (simp_all add: st_initialize_model_def Let_def)
    then show ?thesis
      unfolding get_gp_iff using ax ay None
      by (intro exI [of _ ax] exI [of _ ay])
         (simp add: nth_append initialize_model_def TanimotoGP_def)
  next
    case (Some v)
    then have "m = length H" "H' = H @ [Model ax ay v]"
      using assms(1) by (simp_all add: st_initialize_model_def Let_def)
    then show ?thesis
      unfolding get_gp_iff using ax ay Some
      by (intro exI [of _ ax] exI [of _ ay])
         (simp add: nth_append initialize_model_def TanimotoGP_def load_state_dict_def)
  qed
qed

lemma keeps_get_gp:
  assumes "keeps S H H'" and "get_gp H a = Inr m" and "a \<notin> S"
    and "\<And>b. b \<in> S \<Longrightarrow> b < length H \<Longrightarrow> (\<exists>vs. H ! b = PyList vs) \<or> (\<exists>rs. H ! b = RefList rs)"
  shows "get_gp H' a = Inr m"
proof -
  from assms(2) obtain ax ay where
    m: "a < length H" "H ! a = Model ax ay (state_dict m)"
       "ax < length H" "H ! ax = Rows (train_inputs m)"
       "ay < length H" "H ! ay = Vals (train_targets m)"
    unfolding get_gp_iff by blast
  have "ax \<notin> S" using assms(4) [of ax] m by auto
  moreover have "ay \<notin> S" using assms(4) [of ay] m by auto
  ultimately have "H' ! a = H ! a" "H' ! ax = H ! ax" "H' ! ay = H ! ay"
       "a < length H'" "ax < length H'" "ay < length H'"
    using assms(1,3) m by (auto simp: keeps_def)
  then show ?thesis unfolding get_gp_iff using m by auto
qed

lemma st_bo_iteration_refines:
  assumes R: "refs_hold H v s" and it: "st_bo_iteration E v H = Inr (v', H')"
  shows "\<exists>s'. bo_iteration E s = Inr s' \<and> refs_hold H' v' s'"
proof -
  from it obtain H1 fitted train_y best_f new_x new_obj hx hy H2 train_x new_x_ei new_obj_ei
    br hxr hyr g' H4 best_observed prev model where s:
    "st_fit_gpytorch_model (optimiser E) (model_at v) H = Inr H1"
    "get_gp H1 (model_at v) = Inr fitted"
    "get_vals H1 (train_y_at v) = Inr train_y"
    "torch_max train_y = Inr best_f"
    "st_optimize_acqf_and_get_observation (expected_improvement E fitted best_f)
       (heldout_x_at v) (heldout_y_at v) H1 = Inr ((new_x, new_obj, hx, hy), H2)"
    "get_rows H2 (train_x_at v) = Inr train_x"
    "get_rows H2 new_x = Inr new_x_ei"
    "get_vals H2 new_obj = Inr new_obj_ei"
    "st_update_random_observations (randperm E) (rng_now v) (best_random_at v)
       (heldout_x_random_at v) (heldout_y_random_at v)
       (H2 @ [Rows (train_x @ new_x_ei), Vals (train_y @ new_obj_ei)])
       = Inr ((br, hxr, hyr, g'), H4)"
    "get_list H4 (best_observed_at v) = Inr best_observed"
    "getitem_last best_observed = Inr prev"
    "st_initialize_model (defaults E) (length H2) (length H2 + 1) (Some (state_dict fitted))
       (H4[best_observed_at v := PyList (best_observed @ map (\<lambda>v. max v prev) new_obj_ei)])
       = (model, H')"
    and v': "v' = \<lparr>train_x_at = length H2, train_y_at = length H2 + 1,
            heldout_x_at = hx, heldout_y_at = hy,
            heldout_x_random_at = hxr, heldout_y_random_at = hyr,
            best_observed_at = best_observed_at v, best_random_at = br,
            model_at = model, rng_now = g'\<rparr>"
    by (rule st_bo_iteration_Inr)
  let ?m = "model_at v" and ?bo = "best_observed_at v" and ?br = "best_random_at v"
  from R have r:
    "get_rows H (train_x_at v) = Inr (train_x_ei s)"
    "get_vals H (train_y_at v) = Inr (train_y_ei s)"
    "get_rows H (heldout_x_at v) = Inr (heldout_x_ei s)"
    "get_vals H (heldout_y_at v) = Inr (heldout_y_ei s)"
    "get_rows H (heldout_x_random_at v) = Inr (heldout_x_random s)"
    "get_vals H (heldout_y_random_at v) = Inr (heldout_y_random s)"
    "get_list H ?bo = Inr (best_observed_ei s)"
    "get_list H ?br = Inr (best_random s)"
    "get_gp H ?m = Inr (model_ei s)"
    "rng_now v = rng s" "?bo \<noteq> ?br"
    by (simp_all add: refs_hold_def)
  have mk: "?m < length H" "\<exists>ax ay sd. H ! ?m = Model ax ay sd"
    using r(9) unfolding get_gp_iff by auto
  have bok: "?bo < length H" "H ! ?bo = PyList (best_observed_ei s)"
    and brk: "?br < length H" "H ! ?br = PyList (best_random s)"
    using r(7,8) by (simp_all add: get_list_iff)
  have nm: "train_x_at v \<noteq> ?m" "train_y_at v \<noteq> ?m" "heldout_x_at v \<noteq> ?m"
    "heldout_y_at v \<noteq> ?m" "heldout_x_random_at v \<noteq> ?m" "heldout_y_random_at v \<noteq> ?m"
    "?bo \<noteq> ?m" "?br \<noteq> ?m"
    using r(1-8) mk(2) by (auto simp: get_rows_iff get_vals_iff get_list_iff)
  have nl: "train_x_at v \<noteq> ?br" "heldout_x_random_at v \<noteq> ?br" "heldout_y_random_at v \<noteq> ?br"
    "train_x_at v \<noteq> ?bo"
    using r(1,5,6) bok(2) brk(2) by (auto simp: get_rows_iff get_vals_iff)
  \<comment> \<open>the fit\<close>
  let ?fit = "fit_gpytorch_model (optimiser E) (model_ei s)"
  have fitted: "fitted = ?fit" using st_fit_gp [OF s(1) r(9)] s(2) by simp
  have k1: "keeps {?m} H H1" and l1: "length H1 = length H"
    using st_fit_keeps [OF s(1)] by simp_all
  have ty: "train_y = train_y_ei s"
    using keeps_get(2) [OF k1 _ r(2)] nm(2) s(3) by simp
  have bf: "torch_max (train_y_ei s) = Inr best_f" using s(4) ty by simp
  \<comment> \<open>the selection\<close>
  have hx1: "get_rows H1 (heldout_x_at v) = Inr (heldout_x_ei s)"
    using keeps_get(1) [OF k1 _ r(3)] nm(3) by simp
  have hy1: "get_vals H1 (heldout_y_at v) = Inr (heldout_y_ei s)"
    using keeps_get(2) [OF k1 _ r(4)] nm(4) by simp
  from st_optimize_Inr [OF s(5) hx1 hy1] obtain nx no ihx ihy where o:
    "optimize_acqf_and_get_observation (expected_improvement E fitted best_f)
       (heldout_x_ei s) (heldout_y_ei s) = Inr (nx, no, ihx, ihy)"
    "H2 = H1 @ [Rows nx, Vals no, Rows ihx, Vals ihy]"
    "new_x = length H1" "new_obj = length H1 + 1" "hx = length H1 + 2" "hy = length H1 + 3"
    by blast
  have k2: "keeps {?m} H H2"
    using k1 keeps_append [of "{}" H1] unfolding o(2) by (blast intro: keeps_sub_trans)
  have l2: "length H2 = length H + 4" using o(2) l1 by simp
  have tx: "train_x = train_x_ei s"
    using keeps_get(1) [OF k2 _ r(1)] nm(1) s(6) by simp
  have nx: "new_x_ei = nx" using s(7) unfolding o(2,3) by (simp add: get_rows_iff nth_append)
  have no: "new_obj_ei = no" using s(8) unfolding o(2,4) by (simp add: get_vals_iff nth_append)
  \<comment> \<open>the random policy\<close>
  let ?H3 = "H2 @ [Rows (train_x @ new_x_ei), Vals (train_y @ new_obj_ei)]"
  have k3: "keeps {?m} H ?H3"
    using k2 keeps_append [of "{}" H2] by (blast intro: keeps_sub_trans)
  have l3: "length ?H3 = length H + 6" using l2 by simp
  have b3: "get_list ?H3 ?br = Inr (best_random s)"
    using keeps_get(3) [OF k3 _ r(8)] nm(8) by simp
  have x3: "get_rows ?H3 (heldout_x_random_at v) = Inr (heldout_x_random s)"
    using keeps_get(1) [OF k3 _ r(5)] nm(5) by simp
  have y3: "get_vals ?H3 (heldout_y_random_at v) = Inr (heldout_y_random s)"
    using keeps_get(2) [OF k3 _ r(6)] nm(6) by simp
  from st_update_random_Inr [OF s(9) b3 x3 y3] obtain br' rhx rhy where u:
    "update_random_observations (randperm E) (rng_now v) (best_random s)
       (heldout_x_random s) (heldout_y_random s) = Inr (br', rhx, rhy, g')"
    "H4 = ?H3[?br := PyList br'] @ [Rows rhx, Vals rhy]"
    "br = ?br" "hxr = length ?H3" "hyr = length ?H3 + 1"
    by blast
  have k34: "keeps {?br} ?H3 H4" unfolding u(2) by (rule keeps_update_append) simp
  have l4: "length H4 = length H + 8" using u(2) l3 by simp
  \<comment> \<open>the trace of the GP policy\<close>
  have bo3: "get_list ?H3 ?bo = Inr (best_observed_ei s)"
    using keeps_get(3) [OF k3 _ r(7)] nm(7) by simp
  have bo4: "get_list H4 ?bo = Inr (best_observed_ei s)"
    using keeps_get(3) [OF k34 _ bo3] r(11) by simp
  have bo: "best_observed = best_observed_ei s" using s(10) bo4 by simp
  have pv: "getitem_last (best_observed_ei s) = Inr prev" using s(11) bo by simp
  let ?H5 = "H4[?bo := PyList (best_observed @ map (\<lambda>v. max v prev) new_obj_ei)]"
  have k45: "keeps {?bo} H4 ?H5" by (rule keeps_update) simp
  have l5: "length ?H5 = length H + 8" using l4 by simp
  have k5': "keeps {} ?H5 H'" and ml: "model = length ?H5"
    using st_initialize_model_keeps [OF s(12)] by simp_all
  \<comment> \<open>the value-level iteration\<close>
  let ?tx = "train_x_ei s @ nx" and ?ty = "train_y_ei s @ no"
  let ?s' = "\<lparr>train_x_ei = ?tx, train_y_ei = ?ty,
        heldout_x_ei = ihx, heldout_y_ei = ihy,
        heldout_x_random = rhx, heldout_y_random = rhy,
        best_observed_ei = best_observed_ei s @ map (\<lambda>v. max v prev) no,
        best_random = br',
        model_ei = initialize_model (defaults E) ?tx ?ty (Some (state_dict ?fit)),
        rng = g'\<rparr>"
  have pure: "bo_iteration E s = Inr ?s'"
    using bf o(1) u(1) pv unfolding fitted r(10) by (simp add: bo_iteration_def Let_def)
  \<comment> \<open>the references after the iteration\<close>
  have in3: "get_rows ?H3 (length H2) = Inr ?tx" "get_vals ?H3 (length H2 + 1) = Inr ?ty"
    unfolding tx ty nx no by (simp_all add: get_rows_iff get_vals_iff nth_append)
  have in2: "get_rows ?H3 hx = Inr ihx" "get_vals ?H3 hy = Inr ihy"
    unfolding o(2,5,6) by (simp_all add: get_rows_iff get_vals_iff nth_append)
  have k35: "keeps {?br, ?bo} ?H3 H'"
  proof -
    have "keeps {?br, ?bo} ?H3 H4" using keeps_refl [of "{?br, ?bo}" ?H3] k34
      by (blast intro: keeps_sub_trans)
    then have "keeps {?br, ?bo} ?H3 ?H5" using k45 by (blast intro: keeps_sub_trans)
    then show ?thesis using k5' by (blast intro: keeps_sub_trans)
  qed
  have fresh: "length H2 \<notin> {?br, ?bo}" "length H2 + 1 \<notin> {?br, ?bo}"
    "hx \<notin> {?br, ?bo}" "hy \<notin> {?br, ?bo}"
    using bok(1) brk(1) l1 l2 o(5,6) by auto
  have f1: "get_rows H' (length H2) = Inr ?tx" by (rule keeps_get(1) [OF k35 fresh(1) in3(1)])
  have f2: "get_vals H' (length H2 + 1) = Inr ?ty" by (rule keeps_get(2) [OF k35 fresh(2) in3(2)])
  have f3: "get_rows H' hx = Inr ihx" by (rule keeps_get(1) [OF k35 fresh(3) in2(1)])
  have f4: "get_vals H' hy = Inr ihy" by (rule keeps_get(2) [OF k35 fresh(4) in2(2)])
  have in4: "get_rows H4 hxr = Inr rhx" "get_vals H4 hyr = Inr rhy"
    "get_list H4 ?br = Inr br'"
    unfolding u(2,4,5) using brk(1) l3
    by (simp_all add: get_rows_iff get_vals_iff get_list_iff nth_append)
  have k4': "keeps {?bo} H4 H'" using k45 k5' by (blast intro: keeps_sub_trans)
  have fresh4: "hxr \<notin> {?bo}" "hyr \<notin> {?bo}" "?br \<notin> {?bo}"
    using bok(1) l3 u(4,5) r(11) by auto
  have f5: "get_rows H' hxr = Inr rhx" by (rule keeps_get(1) [OF k4' fresh4(1) in4(1)])
  have f6: "get_vals H' hyr = Inr rhy" by (rule keeps_get(2) [OF k4' fresh4(2) in4(2)])
  have f8: "get_list H' ?br = Inr br'" by (rule keeps_get(3) [OF k4' fresh4(3) in4(3)])
  have in5: "get_list ?H5 ?bo = Inr (best_observed_ei s @ map (\<lambda>v. max v prev) no)"
    using bok(1) l4 unfolding bo no by (simp add: get_list_iff)
  have f7: "get_list H' ?bo = Inr (best_observed_ei s @ map (\<lambda>v. max v prev) no)"
    by (rule keeps_get(3) [OF k5' _ in5]) simp
  have g5: "get_rows ?H5 (length H2) = Inr ?tx" "get_vals ?H5 (length H2 + 1) = Inr ?ty"
  proof -
    have k: "keeps {?br, ?bo} ?H3 ?H5"
      using keeps_refl [of "{?br, ?bo}" ?H3] k34 k45 by (blast intro: keeps_sub_trans)
    show "get_rows ?H5 (length H2) = Inr ?tx" by (rule keeps_get(1) [OF k fresh(1) in3(1)])
    show "get_vals ?H5 (length H2 + 1) = Inr ?ty" by (rule keeps_get(2) [OF k fresh(2) in3(2)])
  qed
  have f9: "get_gp H' model =
      Inr (initialize_model (defaults E) ?tx ?ty (Some (state_dict ?fit)))"
    using st_initialize_model_gp [OF s(12) g5] fitted by simp
  have "refs_hold H' v' ?s'"
    unfolding refs_hold_def v' using f1 f2 f3 f4 f5 f6 f7 f8 f9 u(3) r(11) by simp
  then show ?thesis using pure by blast
qed

lemma st_trial_init_eq:
  assumes "get_rows H aX = Inr X" and "get_vals H ay = Inr y"
    and "train_test_split (shuffle E) X y h trial = Inr (tx, hx, ty, hy)"
    and "np_max ty = Inr b"
  shows "st_trial_init E aX ay h g trial H =
     Inr (\<lparr>train_x_at = length H + 7, train_y_at = length H + 10,
            heldout_x_at = length H + 9, heldout_y_at = length H + 11,
            heldout_x_random_at = length H + 9, heldout_y_random_at = length H + 11,
            best_observed_at = length H, best_random_at = length H + 1,
            model_at = length H + 12, rng_now = g\<rparr>,
          H @ [PyList [b], PyList [b], Rows tx, Rows hx, Vals ty, Vals hy,
               Rows tx, Rows tx, Rows hx, Rows hx, Vals ty, Vals hy,
               Model (length H + 7) (length H + 10) (defaults E)])"
proof -
  have a: "aX < length H" "H ! aX = Rows X" "ay < length H" "H ! ay = Vals y"
    using assms(1,2) by (simp_all add: get_rows_iff get_vals_iff)
  let ?H0 = "H @ [PyList [], PyList []]"
  let ?H1 = "?H0 @ [Rows tx, Rows hx, Vals ty, Vals hy]"
  have s1: "st_train_test_split (shuffle E) aX ay h trial ?H0 =
      Inr ((length H + 2, length H + 3, length H + 4, length H + 5), ?H1)"
    using a assms(3)
    by (simp add: st_train_test_split_def bnd_def raises_def get_rows_def get_vals_def
        nth_append)
  have s2: "get_vals ?H1 (length H + 4) = Inr ty"
    by (simp add: get_vals_def nth_append)
  show ?thesis
    unfolding st_trial_init_def Let_def s1
    by (simp add: bnd_def raises_def assms(4) s2 st_copy_def st_initialize_model_def
        st_append_def get_list_def get_vals_def nth_append Let_def list_update_append)
qed

lemma st_trial_init_refines:
  assumes "get_rows H aX = Inr X" and "get_vals H ay = Inr y"
    and "st_trial_init E aX ay h g trial H = Inr (v, H')"
  shows "\<exists>s0. trial_init E X y h g trial = Inr s0 \<and> refs_hold H' v s0"
proof -
  have a: "aX < length H" "H ! aX = Rows X" "ay < length H" "H ! ay = Vals y"
    using assms(1,2) by (simp_all add: get_rows_iff get_vals_iff)
  from assms(3) obtain tx hx ty hy where
    sp: "train_test_split (shuffle E) X y h trial = Inr (tx, hx, ty, hy)"
    unfolding st_trial_init_def Let_def st_train_test_split_def
    using a
    by (auto elim!: bnd_InrE split: prod.splits
        simp: raises_Inr get_rows_iff get_vals_iff nth_append)
  from assms(3) obtain b where mx: "np_max ty = Inr b"
    unfolding st_trial_init_def Let_def st_train_test_split_def
    using a sp
    by (auto elim!: bnd_InrE split: prod.splits
        simp: raises_Inr get_rows_iff get_vals_iff nth_append)
  note eq = st_trial_init_eq [OF assms(1,2) sp mx, of g]
  have v: "v = \<lparr>train_x_at = length H + 7, train_y_at = length H + 10,
            heldout_x_at = length H + 9, heldout_y_at = length H + 11,
            heldout_x_random_at = length H + 9, heldout_y_random_at = length H + 11,
            best_observed_at = length H, best_random_at = length H + 1,
            model_at = length H + 12, rng_now = g\<rparr>"
    and H': "H' = H @ [PyList [b], PyList [b], Rows tx, Rows hx, Vals ty, Vals hy,
               Rows tx, Rows tx, Rows hx, Rows hx, Vals ty, Vals hy,
               Model (length H + 7) (length H + 10) (defaults E)]"
    using assms(3) eq by simp_all
  let ?s0 = "\<lparr>train_x_ei = tx, train_y_ei = ty,
               heldout_x_ei = hx, heldout_y_ei = hy,
               heldout_x_random = hx, heldout_y_random = hy,
               best_observed_ei = [] @ [b],
               best_random = [] @ [b],
               model_ei = initialize_model (defaults E) tx ty None,
               rng = g\<rparr>"
  have p: "trial_init E X y h g trial = Inr ?s0"
    using sp mx by (simp add: trial_init_def)
  have "refs_hold H' v ?s0"
    unfolding refs_hold_def v H' get_gp_iff
    by (simp add: get_rows_iff get_vals_iff get_list_iff nth_append
        initialize_model_def TanimotoGP_def)
  then show ?thesis using p by blast
qed

lemma st_bo_loop_refines:
  assumes "refs_hold H v s" and "st_bo_loop E n v H = Inr (v', H')"
  shows "\<exists>s'. bo_loop E n s = Inr s' \<and> refs_hold H' v' s'"
  using assms
proof (induction n arbitrary: v H s)
  case 0
  then show ?case by simp
next
  case (Suc n)
  from Suc.prems(2) obtain v1 H1 where
    st: "st_bo_iteration E v H = Inr (v1, H1)" and rest: "st_bo_loop E n v1 H1 = Inr (v', H')"
    by (auto elim!: bnd_InrE)
  from st_bo_iteration_refines [OF Suc.prems(1) st] obtain s1 where
    s1: "bo_iteration E s = Inr s1" "refs_hold H1 v1 s1" by blast
  from Suc.IH [OF s1(2) rest] obtain s' where "bo_loop E n s1 = Inr s'" "refs_hold H' v' s'"
    by blast
  then show ?case using s1(1) by simp
qed

lemma traces_at_append:
  assumes t: "traces_at H a traces" and k: "keeps {} H H2"
    and l: "get_list H2 r = Inr tr"
    and w: "keeps {a, b} H2 H4" and b: "get_reflist H b = Inr rb"
    and a4: "\<And>rs. get_reflist H2 a = Inr rs \<Longrightarrow> get_reflist H4 a = Inr (rs @ [r])"
  shows "traces_at H4 a (traces @ [tr])"
proof -
  from t obtain rs where rs: "get_reflist H a = Inr rs" "map (get_list H) rs = map Inr traces"
    unfolding traces_at_def by blast
  have a2: "get_reflist H2 a = Inr rs" by (rule keeps_get(4) [OF k _ rs(1)]) simp
  have b2: "get_reflist H2 b = Inr rb" by (rule keeps_get(4) [OF k _ b]) simp
  have ak: "a < length H2" "H2 ! a = RefList rs" and bk: "b < length H2" "H2 ! b = RefList rb"
    using a2 b2 by (simp_all add: get_reflist_iff)
  have old: "get_list H4 q = get_list H q" if "q \<in> set rs" for q
  proof -
    from that have "get_list H q \<in> set (map (get_list H) rs)" by simp
    then obtain t where q: "get_list H q = Inr t" unfolding rs(2) by auto
    have q2: "get_list H2 q = Inr t" by (rule keeps_get(3) [OF k _ q]) simp
    have "q \<notin> {a, b}" using q2 ak(2) bk(2) by (auto simp: get_list_iff)
    from keeps_get(3) [OF w this q2] show ?thesis using q by simp
  qed
  have "r \<notin> {a, b}" using l ak(2) bk(2) by (auto simp: get_list_iff)
  from keeps_get(3) [OF w this l] have new: "get_list H4 r = Inr tr" .
  have "map (get_list H4) rs = map (get_list H) rs" using old by simp
  then have "map (get_list H4) (rs @ [r]) = map Inr (traces @ [tr])"
    using rs(2) new by simp
  then show ?thesis unfolding traces_at_def using a4 [OF a2] by blast
qed

lemma st_run_trial_refines:
  assumes R: "notebook_holds H nb st" and run: "st_run_trial C E nb trial H = Inr (nb', H')"
  shows "\<exists>st'. run_trial C E st trial = Inr st' \<and> notebook_holds H' nb' st'"
proof -
  let ?a = "best_observed_all_at nb" and ?b = "best_random_all_at nb"
  from run obtain v0 H1 v H2 H3 where s:
    "st_trial_init E (features_at nb) (labels_at nb) (holdout_set_size C)
       (torch_rng_now nb) trial H = Inr (v0, H1)"
    "st_bo_loop E (N_ITERS C) v0 H1 = Inr (v, H2)"
    "st_append_ref H2 ?a (best_observed_at v) = Inr H3"
    "st_append_ref H3 ?b (best_random_at v) = Inr H'"
    and nb': "nb' = nb\<lparr>torch_rng_now := rng_now v\<rparr>"
    unfolding st_run_trial_def by (auto elim!: bnd_InrE split: prod.splits)
  from R have r:
    "get_rows H (features_at nb) = Inr (features st)"
    "get_vals H (labels_at nb) = Inr (labels st)"
    "traces_at H ?a (best_observed_all_ei st)"
    "traces_at H ?b (best_random_all st)"
    "torch_rng_now nb = torch_rng st" "?a \<noteq> ?b"
    by (simp_all add: notebook_holds_def)
  from st_trial_init_refines [OF r(1,2) s(1)] obtain s0 where s0:
    "trial_init E (features st) (labels st) (holdout_set_size C) (torch_rng_now nb) trial
       = Inr s0" "refs_hold H1 v0 s0"
    by blast
  from st_bo_loop_refines [OF s0(2) s(2)] obtain s' where s':
    "bo_loop E (N_ITERS C) s0 = Inr s'" "refs_hold H2 v s'"
    by blast
  let ?st' = "st\<lparr>best_observed_all_ei := best_observed_all_ei st @ [best_observed_ei s'],
                  best_random_all := best_random_all st @ [best_random s'],
                  torch_rng := rng s'\<rparr>"
  have pure: "run_trial C E st trial = Inr ?st'"
    using s0(1) s'(1) r(5) by (simp add: run_trial_def)
  note i = st_trial_init_keeps [OF s(1)]
  note l = st_bo_loop_keeps [OF s(2)]
  have k1: "keeps {} H H1" using i by simp
  have k2: "keeps {} H H2"
  proof (rule keeps_fresh_trans [OF k1])
    show "keeps {best_observed_at v0, best_random_at v0, model_at v0} H1 H2" using l by simp
    fix c assume "c \<in> {best_observed_at v0, best_random_at v0, model_at v0}"
    then show "c \<in> {} \<or> length H \<le> c" using i by auto
  qed
  have w3: "keeps {?a} H2 H3" and w4: "keeps {?b} H3 H'"
    using st_append_ref_keeps [OF s(3)] st_append_ref_keeps [OF s(4)] by simp_all
  have w: "keeps {?a, ?b} H2 H'"
    using keeps_refl [of "{?a, ?b}" H2] w3 w4 by (blast intro: keeps_sub_trans)
  have w': "keeps {?b, ?a} H2 H'" using w by (simp add: insert_commute)
  from r(3,4) obtain ra rb where ab: "get_reflist H ?a = Inr ra" "get_reflist H ?b = Inr rb"
    unfolding traces_at_def by blast
  have l2: "get_list H2 (best_observed_at v) = Inr (best_observed_ei s')"
    "get_list H2 (best_random_at v) = Inr (best_random s')" "rng_now v = rng s'"
    using s'(2) by (simp_all add: refs_hold_def)
  have a4: "get_reflist H' ?a = Inr (rs @ [best_observed_at v])"
    if "get_reflist H2 ?a = Inr rs" for rs
  proof -
    have "H3 = H2[?a := RefList (rs @ [best_observed_at v])]"
      using s(3) that by (simp add: st_append_ref_def bnd_def)
    then have "get_reflist H3 ?a = Inr (rs @ [best_observed_at v])"
      using that by (simp add: get_reflist_iff)
    from keeps_get(4) [OF w4 _ this] show ?thesis using r(6) by simp
  qed
  have b4: "get_reflist H' ?b = Inr (rs @ [best_random_at v])"
    if "get_reflist H2 ?b = Inr rs" for rs
  proof -
    have "get_reflist H3 ?b = Inr rs" using keeps_get(4) [OF w3 _ that] r(6) by simp
    then have "H' = H3[?b := RefList (rs @ [best_random_at v])]"
      using s(4) by (simp add: st_append_ref_def bnd_def)
    moreover have "?b < length H3" using \<open>get_reflist H3 ?b = Inr rs\<close>
      by (simp add: get_reflist_iff)
    ultimately show ?thesis by (simp add: get_reflist_iff)
  qed
  have t1: "traces_at H' ?a (best_observed_all_ei st @ [best_observed_ei s'])"
    by (rule traces_at_append [OF r(3) k2 l2(1) w ab(2) a4])
  have t2: "traces_at H' ?b (best_random_all st @ [best_random s'])"
    by (rule traces_at_append [OF r(4) k2 l2(2) w' ab(1) b4])
  have kk: "keeps {?a, ?b} H H'" using st_run_trial_keeps [OF run] by simp
  have na: "features_at nb \<notin> {?a, ?b}" "labels_at nb \<notin> {?a, ?b}"
    using r(1,2) ab by (auto simp: get_rows_iff get_vals_iff get_reflist_iff)
  have f1: "get_rows H' (features_at nb) = Inr (features st)"
    by (rule keeps_get(1) [OF kk na(1) r(1)])
  have f2: "get_vals H' (labels_at nb) = Inr (labels st)"
    by (rule keeps_get(2) [OF kk na(2) r(2)])
  have "notebook_holds H' nb' ?st'"
    unfolding notebook_holds_def nb' using f1 f2 t1 t2 l2(3) r(6) by simp
  then show ?thesis using pure by blast
qed

lemma st_trials_loop_refines:
  assumes "notebook_holds H nb st" and "st_trials_loop C E ts nb H = Inr (nb', H')"
  shows "\<exists>st'. trials_loop C E ts st = Inr st' \<and> notebook_holds H' nb' st'"
  using assms
proof (induction ts arbitrary: nb H st)
  case Nil
  then show ?case by simp
next
  case (Cons t ts)
  from Cons.prems(2) obtain nb1 H1 where
    t: "st_run_trial C E nb t H = Inr (nb1, H1)"
    and lp: "st_trials_loop C E ts nb1 H1 = Inr (nb', H')"
    by (auto elim!: bnd_InrE)
  from st_run_trial_refines [OF Cons.prems(1) t] obtain st1 where
    st1: "run_trial C E st t = Inr st1" "notebook_holds H1 nb1 st1" by blast
  from Cons.IH [OF st1(2) lp] obtain st' where
    "trials_loop C E ts st1 = Inr st'" "notebook_holds H' nb' st'" by blast
  then show ?case using st1(1) by simp
qed

lemma st_run_experiment_refines:
  assumes X: "get_rows H aX = Inr X" and y: "get_vals H ay = Inr y"
    and run: "st_run_experiment C E aX ay g H = Inr (nb, H')"
  shows "\<exists>st'. run_experiment C E
                 \<lparr>features = X, labels = y, best_observed_all_ei = old_ei,
                  best_random_all = old_random, torch_rng = g\<rparr> = Inr st'
             \<and> notebook_holds H' nb st'"
proof -
  let ?nb = "\<lparr>features_at = aX, labels_at = ay,
        best_observed_all_at = length H, best_random_all_at = length H + 1,
        torch_rng_now = g\<rparr>"
  let ?st = "\<lparr>features = X, labels = y, best_observed_all_ei = [],
                  best_random_all = [], torch_rng = g\<rparr>"
  let ?H0 = "H @ [RefList [], RefList []]"
  define ts where "ts = [1..<N_TRIALS C + 1]"
  have lp: "st_trials_loop C E ts ?nb ?H0 = Inr (nb, H')"
    using run unfolding st_run_experiment_def ts_def .
  have "notebook_holds ?H0 ?nb ?st"
    using X y
    by (simp add: notebook_holds_def traces_at_def get_rows_iff get_vals_iff get_reflist_iff
        nth_append)
  from st_trials_loop_refines [OF this lp] obtain st' where
    "trials_loop C E ts ?st = Inr st'" "notebook_holds H' nb st'" by blast
  then show ?thesis unfolding run_experiment_def ts_def by simp
qed

subsection \<open>The acquisition function of an iteration\<close>

lemma bo_iteration_select:
  assumes "bo_iteration E s = Inr s'"
  shows "\<exists>best_f new_x new_obj.
           torch_max (train_y_ei s) = Inr best_f
         \<and> optimize_acqf_and_get_observation
               (expected_improvement E (fit_gpytorch_model (optimiser E) (model_ei s)) best_f)
               (heldout_x_ei s) (heldout_y_ei s)
             = Inr (new_x, new_obj, heldout_x_ei s', heldout_y_ei s')
         \<and> train_x_ei s' = train_x_ei s @ new_x \<and> train_y_ei s' = train_y_ei s @ new_obj"
proof -
  let ?m = "fit_gpytorch_model (optimiser E) (model_ei s)"
  from assms obtain best_f where 1: "torch_max (train_y_ei s) = Inr best_f"
    by (cases "torch_max (train_y_ei s)") (simp_all add: bo_iteration_def Let_def)
  let ?opt = "optimize_acqf_and_get_observation (expected_improvement E ?m best_f)
                (heldout_x_ei s) (heldout_y_ei s)"
  from assms 1 obtain r where r: "?opt = Inr r"
    by (cases ?opt) (simp_all add: bo_iteration_def Let_def)
  obtain nx no hx hy where 2: "?opt = Inr (nx, no, hx, hy)"
    using r by (cases r) simp
  let ?rnd = "update_random_observations (randperm E) (rng s) (best_random s)
                (heldout_x_random s) (heldout_y_random s)"
  from assms 1 2 obtain q where q: "?rnd = Inr q"
    by (cases ?rnd) (simp_all add: bo_iteration_def Let_def)
  obtain br hxr hyr g' where 3: "?rnd = Inr (br, hxr, hyr, g')"
    using q by (cases q) simp
  from assms 1 2 3 obtain prev where 4: "getitem_last (best_observed_ei s) = Inr prev"
    by (cases "getitem_last (best_observed_ei s)") (simp_all add: bo_iteration_def Let_def)
  from assms 1 2 3 4 have s': "s' =
      \<lparr>train_x_ei = train_x_ei s @ nx, train_y_ei = train_y_ei s @ no,
        heldout_x_ei = hx, heldout_y_ei = hy,
        heldout_x_random = hxr, heldout_y_random = hyr,
        best_observed_ei = best_observed_ei s @ map (\<lambda>v. max v prev) no,
        best_random = br,
        model_ei = initialize_model (defaults E) (train_x_ei s @ nx) (train_y_ei s @ no)
                     (Some (state_dict ?m)),
        rng = g'\<rparr>"
    by (simp add: bo_iteration_def Let_def)
  have "?opt = Inr (nx, no, heldout_x_ei s', heldout_y_ei s')" using 2 by (simp add: s')
  moreover have "train_x_ei s' = train_x_ei s @ nx" "train_y_ei s' = train_y_ei s @ no"
    by (simp_all add: s')
  ultimately show ?thesis using 1 by blast
qed

lemma bo_iteration_best_f:
  assumes "torch_max (train_y_ei s) = Inr b"
  shows "bo_iteration E s =
           bo_iteration (E\<lparr>expected_improvement := \<lambda>m best_f. expected_improvement E m b\<rparr>) s"
  using assms by (simp add: bo_iteration_def Let_def split: sum.splits prod.splits)

subsection \<open>The confidence interval on an array\<close>



subsection \<open>The sample run\<close>


lemma sample_valid_randperm: "valid_randperm sample_randperm"
  by (simp add: valid_randperm_def sample_randperm_def atLeast0LessThan)

lemma sample_init: "trial_init sample_env sample_X sample_y (1 / 2) 0 1 = Inr sample_s0"
  by code_simp

lemma sample_loop1: "bo_loop sample_env 1 sample_s0 = Inr sample_s1"
  by code_simp

lemma sample_step2: "bo_iteration sample_env sample_s1 = Inr sample_s2"
  by code_simp


lemma sample_pool_select:
  "optimize_acqf_and_get_observation sum_list sample_pool_x sample_pool_y =
     Inr ([3], [30], [1, 3, 2], [10, 31, 20])"
  by code_simp

lemma sample_pool_random:
  "update_random_observations sample_randperm 1 [5] sample_pool_x sample_pool_y =
     Inr ([5, 30], [1, 3, 2], [10, 31, 20], 2)"
  by code_simp

lemma sample_experiment:
  "run_experiment sample_config sample_env sample_notebook = Inr sample_result"
  by code_simp



lemma sample_store_run:
  "st_run_experiment sample_config sample_env 0 1 0 sample_store
     = Inr (sample_refs, sample_store_after)"
  by code_simp

lemma sample_store_reads:
  "get_rows sample_store 0 = Inr sample_X" "get_vals sample_store 1 = Inr sample_y"
  by (simp_all add: get_rows_def get_vals_def sample_store_def)

section \<open>The claims\<close>

subsection \<open>Selection on an empty pool (C3)\<close>

text \<open>
  Claim C3 says that a selection on an empty heldout pool fails with an
  \<open>EmptyPoolError\<close>. The notebook has no such error: on the empty pool neither
  selection ends in \<open>EmptyPoolError\<close>.
\<close>

theorem C3_counterexample:
  "optimize_acqf_and_get_observation sum_list ([] :: real list) [] \<noteq> Inl EmptyPoolError
   \<and> update_random_observations sample_randperm 0 [20] ([] :: real list) [] \<noteq> Inl EmptyPoolError"
  by (simp add: optimize_empty update_random_empty [OF sample_valid_randperm])

text \<open>
  Claim C3, as the code has it: on an empty heldout pool the discrete optimiser fails
  with the error that \<^verbatim>\<open>torch.argmax\<close> raises on an empty tensor, and the random
  policy (with a generator that draws permutations) fails with the IndexError of
  \<^verbatim>\<open>torch.randperm(0)[0]\<close>; neither returns a point.
\<close>

theorem C3_empty_pool_fails:
  "optimize_acqf_and_get_observation acq_func heldout_inputs [] = Inl EmptyReductionError
   \<and> (valid_randperm rp \<longrightarrow>
        update_random_observations rp g trace heldout_inputs [] = Inl IndexError)"
  by (simp add: optimize_empty update_random_empty)

theorem C3_empty_pool_fails_witness:
  "valid_randperm sample_randperm
   \<and> optimize_acqf_and_get_observation sum_list ([] :: real list) [] = Inl EmptyReductionError
   \<and> update_random_observations sample_randperm 0 [20] ([] :: real list) [] = Inl IndexError"
  using C3_empty_pool_fails [where acq_func = sum_list and rp = sample_randperm and g = 0
      and trace = "[20]" and heldout_inputs = "[] :: real list"]
    sample_valid_randperm
  by simp

subsection \<open>The discrete optimiser picks the first maximiser (C4)\<close>

text \<open>
  Claim C4: on a non-empty heldout pool the loop evaluates the acquisition function
  once per pool point, in pool order (the list of values it builds is the list of the
  values of the pool's rows); the optimiser returns the row and the label at an index
  \<open>b\<close> whose acquisition value is maximal, and every row before \<open>b\<close> has a strictly
  smaller value: among several maximisers the lowest index is chosen.
\<close>

theorem C4_argmax_lowest_index:
  assumes "heldout_outputs \<noteq> []" and "length heldout_inputs = length heldout_outputs"
  shows "\<exists>b < length heldout_inputs.
           acq_vals_loop acq_func heldout_inputs [0..<length heldout_outputs] [] =
             Inr (map (\<lambda>row. acq_func (unsqueeze row)) heldout_inputs)
         \<and> optimize_acqf_and_get_observation acq_func heldout_inputs heldout_outputs =
             Inr (unsqueeze (heldout_inputs ! b), unsqueeze (heldout_outputs ! b),
                  take b heldout_inputs @ drop (b + 1) heldout_inputs,
                  take b heldout_outputs @ drop (b + 1) heldout_outputs)
         \<and> (\<forall>j < length heldout_inputs.
               acq_func (unsqueeze (heldout_inputs ! j)) \<le> acq_func (unsqueeze (heldout_inputs ! b)))
         \<and> (\<forall>j < b.
               acq_func (unsqueeze (heldout_inputs ! j)) < acq_func (unsqueeze (heldout_inputs ! b)))"
proof -
  have le: "length heldout_outputs \<le> length heldout_inputs" using assms(2) by simp
  have loop: "acq_vals_loop acq_func heldout_inputs [0..<length heldout_outputs] [] =
             Inr (map (\<lambda>row. acq_func (unsqueeze row)) heldout_inputs)"
    using acq_vals_loop_all [OF le, of acq_func] assms(2) by simp
  from optimize_total [OF assms(1) le, of acq_func] obtain b where
    "b < length heldout_outputs"
    "optimize_acqf_and_get_observation acq_func heldout_inputs heldout_outputs =
             Inr (unsqueeze (heldout_inputs ! b), unsqueeze (heldout_outputs ! b),
                  take b heldout_inputs @ drop (b + 1) heldout_inputs,
                  take b heldout_outputs @ drop (b + 1) heldout_outputs)"
    "\<forall>j < length heldout_outputs.
               acq_func (unsqueeze (heldout_inputs ! j)) \<le> acq_func (unsqueeze (heldout_inputs ! b))"
    "\<forall>j < b.
               acq_func (unsqueeze (heldout_inputs ! j)) < acq_func (unsqueeze (heldout_inputs ! b))"
    by blast
  then show ?thesis using loop assms(2) by auto
qed

theorem C4_argmax_lowest_index_witness:
  "sample_pool_y \<noteq> [] \<and> length sample_pool_x = length sample_pool_y
   \<and> (\<exists>b < length sample_pool_x.
         acq_vals_loop sum_list sample_pool_x [0..<length sample_pool_y] [] =
           Inr (map (\<lambda>row. sum_list (unsqueeze row)) sample_pool_x)
       \<and> optimize_acqf_and_get_observation sum_list sample_pool_x sample_pool_y =
           Inr (unsqueeze (sample_pool_x ! b), unsqueeze (sample_pool_y ! b),
                take b sample_pool_x @ drop (b + 1) sample_pool_x,
                take b sample_pool_y @ drop (b + 1) sample_pool_y)
       \<and> (\<forall>j < length sample_pool_x.
             sum_list (unsqueeze (sample_pool_x ! j)) \<le> sum_list (unsqueeze (sample_pool_x ! b)))
       \<and> (\<forall>j < b.
             sum_list (unsqueeze (sample_pool_x ! j)) < sum_list (unsqueeze (sample_pool_x ! b))))"
proof -
  have h1: "sample_pool_y \<noteq> []" by (simp add: sample_pool_y_def)
  have h2: "length sample_pool_x = length sample_pool_y"
    by (simp add: sample_pool_x_def sample_pool_y_def)
  show ?thesis
    using h1 h2 C4_argmax_lowest_index [OF h1 h2, of sum_list] by (intro conjI)
qed

subsection \<open>Inputs and labels stay paired (C10)\<close>

text \<open>
  Claim C10: on a pool whose input and label tensors have one length, either selection
  removes one and the same index \<open>b\<close> from both tensors. The optimiser returns the row
  and the label at \<open>b\<close>, the random policy folds the label at \<open>b\<close> into its trace, and
  the remaining tensors have one length and pair the rows with the labels they were
  paired with before.
\<close>

theorem C10_same_index:
  assumes "length heldout_inputs = length heldout_outputs"
  shows "(optimize_acqf_and_get_observation acq_func heldout_inputs heldout_outputs =
            Inr (new_x, new_obj, inputs', outputs') \<longrightarrow>
          (\<exists>b < length heldout_inputs.
             new_x = unsqueeze (heldout_inputs ! b) \<and> new_obj = unsqueeze (heldout_outputs ! b)
           \<and> inputs' = take b heldout_inputs @ drop (b + 1) heldout_inputs
           \<and> outputs' = take b heldout_outputs @ drop (b + 1) heldout_outputs
           \<and> length inputs' = length outputs'
           \<and> zip inputs' outputs' =
               take b (zip heldout_inputs heldout_outputs)
                 @ drop (b + 1) (zip heldout_inputs heldout_outputs)))
       \<and> (update_random_observations rp g trace heldout_inputs heldout_outputs =
            Inr (trace', inputs', outputs', g') \<longrightarrow>
          (\<exists>b < length heldout_inputs.
             trace' = trace @ [max (last trace) (heldout_outputs ! b)]
           \<and> inputs' = take b heldout_inputs @ drop (b + 1) heldout_inputs
           \<and> outputs' = take b heldout_outputs @ drop (b + 1) heldout_outputs
           \<and> length inputs' = length outputs'
           \<and> zip inputs' outputs' =
               take b (zip heldout_inputs heldout_outputs)
                 @ drop (b + 1) (zip heldout_inputs heldout_outputs)))"
proof (intro conjI impI)
  assume "optimize_acqf_and_get_observation acq_func heldout_inputs heldout_outputs =
            Inr (new_x, new_obj, inputs', outputs')"
  from optimize_Inr [OF this] obtain b where
    b: "b < length heldout_inputs" "new_x = [heldout_inputs ! b]"
       "new_obj = [heldout_outputs ! b]"
       "inputs' = take b heldout_inputs @ drop (Suc b) heldout_inputs"
       "outputs' = take b heldout_outputs @ drop (Suc b) heldout_outputs"
    by blast
  have z: "zip inputs' outputs' =
             take b (zip heldout_inputs heldout_outputs)
               @ drop (Suc b) (zip heldout_inputs heldout_outputs)"
    unfolding b(4,5) using assms b(1) by (simp add: take_zip drop_zip)
  have l: "length inputs' = length outputs'" unfolding b(4,5) using assms by simp
  show "\<exists>b < length heldout_inputs.
             new_x = unsqueeze (heldout_inputs ! b) \<and> new_obj = unsqueeze (heldout_outputs ! b)
           \<and> inputs' = take b heldout_inputs @ drop (b + 1) heldout_inputs
           \<and> outputs' = take b heldout_outputs @ drop (b + 1) heldout_outputs
           \<and> length inputs' = length outputs'
           \<and> zip inputs' outputs' =
               take b (zip heldout_inputs heldout_outputs)
                 @ drop (b + 1) (zip heldout_inputs heldout_outputs)"
    using b z l by (auto simp: unsqueeze_def)
next
  assume "update_random_observations rp g trace heldout_inputs heldout_outputs =
            Inr (trace', inputs', outputs', g')"
  from update_random_Inr [OF this] obtain c where
    c: "c < length heldout_outputs" "trace' = trace @ [max (last trace) (heldout_outputs ! c)]"
       "inputs' = take c heldout_inputs @ drop (Suc c) heldout_inputs"
       "outputs' = take c heldout_outputs @ drop (Suc c) heldout_outputs"
    by blast
  have z: "zip inputs' outputs' =
             take c (zip heldout_inputs heldout_outputs)
               @ drop (Suc c) (zip heldout_inputs heldout_outputs)"
    unfolding c(3,4) using assms c(1) by (simp add: take_zip drop_zip)
  have l: "length inputs' = length outputs'" unfolding c(3,4) using assms by simp
  show "\<exists>b < length heldout_inputs.
             trace' = trace @ [max (last trace) (heldout_outputs ! b)]
           \<and> inputs' = take b heldout_inputs @ drop (b + 1) heldout_inputs
           \<and> outputs' = take b heldout_outputs @ drop (b + 1) heldout_outputs
           \<and> length inputs' = length outputs'
           \<and> zip inputs' outputs' =
               take b (zip heldout_inputs heldout_outputs)
                 @ drop (b + 1) (zip heldout_inputs heldout_outputs)"
    using c z l assms by auto
qed

theorem C10_same_index_witness:
  "length sample_pool_x = length sample_pool_y
   \<and> optimize_acqf_and_get_observation sum_list sample_pool_x sample_pool_y =
       Inr ([3], [30], [1, 3, 2], [10, 31, 20])
   \<and> update_random_observations sample_randperm 1 [5] sample_pool_x sample_pool_y =
       Inr ([5, 30], [1, 3, 2], [10, 31, 20], 2)
   \<and> (\<exists>b < length sample_pool_x.
         [3] = unsqueeze (sample_pool_x ! b) \<and> [30] = unsqueeze (sample_pool_y ! b)
       \<and> zip [1, 3, 2] [10, 31, 20] =
           take b (zip sample_pool_x sample_pool_y) @ drop (b + 1) (zip sample_pool_x sample_pool_y))
   \<and> (\<exists>b < length sample_pool_x.
         [5, 30] = [5] @ [max (last [5]) (sample_pool_y ! b)]
       \<and> zip [1, 3, 2] [10, 31, 20] =
           take b (zip sample_pool_x sample_pool_y) @ drop (b + 1) (zip sample_pool_x sample_pool_y))"
proof -
  have h: "length sample_pool_x = length sample_pool_y"
    by (simp add: sample_pool_x_def sample_pool_y_def)
  note t = C10_same_index [OF h, of sum_list "[3]" "[30]" "[1, 3, 2]" "[10, 31, 20]"
              sample_randperm 1 "[5]" "[5, 30]" 2]
  have a: "\<exists>b < length sample_pool_x.
         [3] = unsqueeze (sample_pool_x ! b) \<and> [30] = unsqueeze (sample_pool_y ! b)
       \<and> zip [1, 3, 2] [10, 31, 20] =
           take b (zip sample_pool_x sample_pool_y) @ drop (b + 1) (zip sample_pool_x sample_pool_y)"
    using t [THEN conjunct1, rule_format, OF sample_pool_select] by blast
  have b: "\<exists>b < length sample_pool_x.
         [5, 30] = [5] @ [max (last [5]) (sample_pool_y ! b)]
       \<and> zip [1, 3, 2] [10, 31, 20] =
           take b (zip sample_pool_x sample_pool_y) @ drop (b + 1) (zip sample_pool_x sample_pool_y)"
    using t [THEN conjunct2, rule_format, OF sample_pool_random] by blast
  show ?thesis using h sample_pool_select sample_pool_random a b by (intro conjI)
qed

subsection \<open>The traces never decrease (C2)\<close>



subsection \<open>Warm start of the fit (C6)\<close>

text \<open>
  Claim C6: the model that the first iteration fits holds the default hyperparameters.
  The fit of an iteration starts the optimiser from the hyperparameters the model
  holds, and the model that the iteration leaves for the next one holds the
  hyperparameters this fit produced (and the grown train set).
\<close>

theorem C6_warm_start:
  assumes "trial_init E X y h g trial = Inr s0"
  shows "state_dict (model_ei s0) = defaults E
       \<and> (bo_loop E i s0 = Inr s \<and> bo_iteration E s = Inr s' \<longrightarrow>
            state_dict (fit_gpytorch_model (optimiser E) (model_ei s)) =
              optimiser E (state_dict (model_ei s)) (train_x_ei s) (train_y_ei s)
          \<and> state_dict (model_ei s') =
              state_dict (fit_gpytorch_model (optimiser E) (model_ei s))
          \<and> train_inputs (model_ei s') = train_x_ei s'
          \<and> train_targets (model_ei s') = train_y_ei s')"
proof (intro conjI impI)
  show "state_dict (model_ei s0) = defaults E"
    using trial_init_Inr [OF assms] by (auto simp: initialize_model_fields)
next
  assume a: "bo_loop E i s0 = Inr s \<and> bo_iteration E s = Inr s'"
  then have run: "bo_loop E i s0 = Inr s" and it: "bo_iteration E s = Inr s'" by simp_all
  show "state_dict (fit_gpytorch_model (optimiser E) (model_ei s)) =
          optimiser E (state_dict (model_ei s)) (train_x_ei s) (train_y_ei s)"
    using bo_loop_inv [OF assms run] by (simp add: fit_gpytorch_model_def)
  from bo_iteration_Inr [OF it] have m: "model_ei s' =
      initialize_model (defaults E) (train_x_ei s') (train_y_ei s')
        (Some (state_dict (fit_gpytorch_model (optimiser E) (model_ei s))))"
    by blast
  show "state_dict (model_ei s') = state_dict (fit_gpytorch_model (optimiser E) (model_ei s))"
    by (subst m) (simp add: initialize_model_fields)
  show "train_inputs (model_ei s') = train_x_ei s'"
    by (subst m) (simp add: initialize_model_fields)
  show "train_targets (model_ei s') = train_y_ei s'"
    by (subst m) (simp add: initialize_model_fields)
qed

theorem C6_warm_start_witness:
  "trial_init sample_env sample_X sample_y (1 / 2) 0 1 = Inr sample_s0
   \<and> bo_loop sample_env 1 sample_s0 = Inr sample_s1
   \<and> bo_iteration sample_env sample_s1 = Inr sample_s2
   \<and> state_dict (model_ei sample_s0) = defaults sample_env
   \<and> state_dict (model_ei sample_s2) =
       state_dict (fit_gpytorch_model (optimiser sample_env) (model_ei sample_s1))"
  using C6_warm_start [OF sample_init, of 1 sample_s1 sample_s2]
    sample_init sample_loop1 sample_step2
  by simp

subsection \<open>Length and first entry of the traces (C5)\<close>

text \<open>
  Claim C5: when the experiment completes, it has collected one GP trace and one random
  trace per trial; for every trial \<open>k + 1\<close> both traces have \<open>N_ITERS + 1\<close> entries,
  their entries at iteration 0 are equal, and this entry is the largest label of the
  train set that the split of this trial returned.
\<close>

theorem C5_trace_length_and_start:
  assumes "run_experiment C E st = Inr st'" and "k < N_TRIALS C"
  shows "length (best_observed_all_ei st') = N_TRIALS C
       \<and> length (best_random_all st') = N_TRIALS C
       \<and> length (best_observed_all_ei st' ! k) = N_ITERS C + 1
       \<and> length (best_random_all st' ! k) = N_ITERS C + 1
       \<and> best_observed_all_ei st' ! k ! 0 = best_random_all st' ! k ! 0
       \<and> (\<exists>train_x heldout_x train_y heldout_y.
             train_test_split (shuffle E) (features st) (labels st) (holdout_set_size C) (k + 1)
               = Inr (train_x, heldout_x, train_y, heldout_y)
           \<and> best_observed_all_ei st' ! k ! 0 = Max (set train_y))"
  using experiment_traces [OF assms(1)] assms(2) by blast

theorem C5_trace_length_and_start_witness:
  "run_experiment sample_config sample_env sample_notebook = Inr sample_result
   \<and> 1 < N_TRIALS sample_config
   \<and> length (best_observed_all_ei sample_result ! 1) = N_ITERS sample_config + 1
   \<and> length (best_random_all sample_result ! 1) = N_ITERS sample_config + 1
   \<and> best_observed_all_ei sample_result ! 1 ! 0 = best_random_all sample_result ! 1 ! 0"
proof -
  have h: "1 < N_TRIALS sample_config" by (simp add: sample_config_def)
  show ?thesis
    using C5_trace_length_and_start [OF sample_experiment h] sample_experiment h by simp
qed

subsection \<open>The incumbent passed to the acquisition function (C9)\<close>

text \<open>
  Claim C9: at the start of every iteration of a trial, the maximum of the labels of
  the GP train set, \<^verbatim>\<open>train_y_ei.max()\<close>, is the last entry of the GP trace, and it is
  the \<open>best_f\<close> that the iteration passes to Expected Improvement: the iteration is the
  one that passes the last entry of the trace whatever value it is given for \<open>best_f\<close>,
  and the point an iteration selects is the one that the discrete optimiser returns
  for the acquisition function built from the fitted model and the last entry of the
  trace.
\<close>

theorem C9_best_f_is_last_trace_entry:
  assumes "trial_init E X y h g trial = Inr s0"
    and "bo_loop E i s0 = Inr s"
  shows "torch_max (train_y_ei s) = Inr (last (best_observed_ei s))
       \<and> bo_iteration E s =
           bo_iteration
             (E\<lparr>expected_improvement :=
                  \<lambda>m best_f. expected_improvement E m (last (best_observed_ei s))\<rparr>) s
       \<and> (bo_iteration E s = Inr s' \<longrightarrow>
            (\<exists>new_x new_obj.
               optimize_acqf_and_get_observation
                 (expected_improvement E (fit_gpytorch_model (optimiser E) (model_ei s))
                    (last (best_observed_ei s)))
                 (heldout_x_ei s) (heldout_y_ei s)
               = Inr (new_x, new_obj, heldout_x_ei s', heldout_y_ei s')
             \<and> train_x_ei s' = train_x_ei s @ new_x
             \<and> train_y_ei s' = train_y_ei s @ new_obj))"
proof (intro conjI impI)
  show m: "torch_max (train_y_ei s) = Inr (last (best_observed_ei s))"
    using bo_loop_inv [OF assms] by (simp add: torch_max_def)
  show "bo_iteration E s =
           bo_iteration
             (E\<lparr>expected_improvement :=
                  \<lambda>m best_f. expected_improvement E m (last (best_observed_ei s))\<rparr>) s"
    using m by (rule bo_iteration_best_f)
  assume "bo_iteration E s = Inr s'"
  from bo_iteration_select [OF this] obtain best_f new_x new_obj where
    a: "torch_max (train_y_ei s) = Inr best_f"
       "optimize_acqf_and_get_observation
               (expected_improvement E (fit_gpytorch_model (optimiser E) (model_ei s)) best_f)
               (heldout_x_ei s) (heldout_y_ei s)
             = Inr (new_x, new_obj, heldout_x_ei s', heldout_y_ei s')"
       "train_x_ei s' = train_x_ei s @ new_x" "train_y_ei s' = train_y_ei s @ new_obj"
    by blast
  have "best_f = last (best_observed_ei s)" using a(1) m by simp
  then show "\<exists>new_x new_obj.
               optimize_acqf_and_get_observation
                 (expected_improvement E (fit_gpytorch_model (optimiser E) (model_ei s))
                    (last (best_observed_ei s)))
                 (heldout_x_ei s) (heldout_y_ei s)
               = Inr (new_x, new_obj, heldout_x_ei s', heldout_y_ei s')
             \<and> train_x_ei s' = train_x_ei s @ new_x
             \<and> train_y_ei s' = train_y_ei s @ new_obj"
    using a(2,3,4) by blast
qed

theorem C9_best_f_is_last_trace_entry_witness:
  "trial_init sample_env sample_X sample_y (1 / 2) 0 1 = Inr sample_s0
   \<and> bo_loop sample_env 1 sample_s0 = Inr sample_s1
   \<and> bo_iteration sample_env sample_s1 = Inr sample_s2
   \<and> torch_max (train_y_ei sample_s1) = Inr (last (best_observed_ei sample_s1))
   \<and> (\<exists>new_x new_obj.
         optimize_acqf_and_get_observation
           (expected_improvement sample_env
              (fit_gpytorch_model (optimiser sample_env) (model_ei sample_s1))
              (last (best_observed_ei sample_s1)))
           (heldout_x_ei sample_s1) (heldout_y_ei sample_s1)
         = Inr (new_x, new_obj, heldout_x_ei sample_s2, heldout_y_ei sample_s2)
       \<and> train_x_ei sample_s2 = train_x_ei sample_s1 @ new_x
       \<and> train_y_ei sample_s2 = train_y_ei sample_s1 @ new_obj)"
proof -
  note t = C9_best_f_is_last_trace_entry [OF sample_init sample_loop1, of sample_s2]
  show ?thesis
    using sample_init sample_loop1 sample_step2 t [THEN conjunct1]
      t [THEN conjunct2, THEN conjunct2, rule_format, OF sample_step2]
    by (intro conjI)
qed

subsection \<open>Train set and pools (C1)\<close>




subsection \<open>The confidence interval (C7)\<close>



subsection \<open>The dataset is only read (C8)\<close>

text \<open>
  Claim C8, on the store: when \<^verbatim>\<open>X\<close> and \<^verbatim>\<open>y\<close> are the objects at the addresses \<open>aX\<close> and
  \<open>ay\<close> and the experiment cell runs to its end, then every object that was in the
  store before the run is in it afterwards with the content it had, the variables
  \<^verbatim>\<open>X\<close> and \<^verbatim>\<open>y\<close> hold the addresses they held, and the objects they refer to are the
  feature matrix and the label vector of before the run. The operations that change an
  object in place (the appends to the traces and to the collections, the fit and
  \<^verbatim>\<open>load_state_dict\<close>) all act on objects created during the run; for one trial and one
  iteration this is \<open>st_run_trial_keeps\<close> and \<open>st_bo_iteration_keeps\<close>, and
  \<open>st_run_experiment_refines\<close> shows that the run on the store computes the traces of
  \<open>run_experiment\<close>.
\<close>

theorem C8_dataset_unchanged:
  assumes "get_rows H aX = Inr X" and "get_vals H ay = Inr y"
    and "st_run_experiment C E aX ay g H = Inr (nb, H')"
  shows "take (length H) H' = H
       \<and> features_at nb = aX \<and> labels_at nb = ay
       \<and> get_rows H' (features_at nb) = Inr X \<and> get_vals H' (labels_at nb) = Inr y"
proof -
  note k = st_run_experiment_keeps [OF assms(3)]
  have kp: "keeps {} H H'" using k by simp
  have "take (length H) H' = H"
    by (rule nth_equalityI) (use kp in \<open>auto simp: keeps_def\<close>)
  moreover have "get_rows H' aX = Inr X" by (rule keeps_get(1) [OF kp _ assms(1)]) simp
  moreover have "get_vals H' ay = Inr y" by (rule keeps_get(2) [OF kp _ assms(2)]) simp
  ultimately show ?thesis using k by simp
qed

theorem C8_dataset_unchanged_witness:
  "get_rows sample_store 0 = Inr sample_X \<and> get_vals sample_store 1 = Inr sample_y
   \<and> st_run_experiment sample_config sample_env 0 1 0 sample_store
       = Inr (sample_refs, sample_store_after)
   \<and> take (length sample_store) sample_store_after = sample_store
   \<and> get_rows sample_store_after (features_at sample_refs) = Inr sample_X
   \<and> get_vals sample_store_after (labels_at sample_refs) = Inr sample_y"
  using C8_dataset_unchanged [OF sample_store_reads sample_store_run]
    sample_store_reads sample_store_run
  by blast

end
